theory Spec2Isabelle
  imports Complex_Main "HOL-Library.Sublist" "HOL-Library.Log_Nat"
begin

section \<open>JavaScript values\<close>

text \<open>
  The feed messages and the polled items are decoded JSON, and the code reads their
  properties without checking a type, so the fields of a stored token hold whatever value
  the decoded document had. A value is \<open>undefined\<close> or a JSON value. An array or an
  object carries its reference, the identity that \<open>===\<close> compares. No object is changed
  after it is decoded, so two values with the same reference have the same content, and
  \<open>a === b\<close> is the equality \<open>a = b\<close> of the model. A number of a decoded document is
  a double, kept as the rational it denotes (\<open>JSON.parse\<close> has rounded the numeral
  already); arithmetic on numbers rounds as the doubles of the language do, see
  \<open>roundDouble\<close>. The two zeros of a double are one value, as they are for \<open>===\<close>
  and in the JSON of a response. A numeral beyond the range of a double, which decodes to
  an infinity, is not modelled. \<open>NaN\<close> is not a JSON value.
\<close>

datatype jsval =
    JUndefined
  | JNull
  | JBool bool
  | JNum rat
  | JStr string
  | JArr nat "jsval list"
  | JObj nat "(string \<times> jsval) list"

text \<open>The result of arithmetic: a finite number, an infinity or \<open>NaN\<close>.\<close>

datatype jsnum = Fin rat | PosInf | NegInf | NaN

datatype error = TypeError

text \<open>ToBoolean, as \<open>if (v)\<close>, \<open>v && w\<close> and \<open>v || w\<close> apply it.\<close>

fun truthy :: "jsval \<Rightarrow> bool" where
  "truthy JUndefined = False"
| "truthy JNull = False"
| "truthy (JBool b) = b"
| "truthy (JNum n) = (n \<noteq> 0)"
| "truthy (JStr s) = (s \<noteq> [])"
| "truthy (JArr r xs) = True"
| "truthy (JObj r fs) = True"

definition jsOr :: "jsval \<Rightarrow> jsval \<Rightarrow> jsval" where
  "jsOr a b = (if truthy a then a else b)"

text \<open>
  Reading a property of \<open>null\<close> or \<open>undefined\<close> throws a TypeError; the callers test
  \<open>nullish\<close> before the first read. Every other receiver gives \<open>undefined\<close> for a
  property it does not have. None of the property names the program reads is a built-in
  property of a string, a number, a boolean or an array.
\<close>

fun nullish :: "jsval \<Rightarrow> bool" where
  "nullish JUndefined = True"
| "nullish JNull = True"
| "nullish v = False"

fun getProp :: "jsval \<Rightarrow> string \<Rightarrow> jsval" where
  "getProp (JObj r fs) k = (case map_of fs k of Some v \<Rightarrow> v | None \<Rightarrow> JUndefined)"
| "getProp v k = JUndefined"

section \<open>The token store\<close>

text \<open>
  \<open>interface Token\<close>. The declared types are not checked at run time, so the fields read
  from a decoded document are \<open>jsval\<close>. \<open>bondingProgress\<close> is optional: the poller does
  not set it. \<open>fetchedAt\<close> is a reading of \<open>Date.now()\<close>, in milliseconds.
\<close>

record token =
  address :: jsval
  symbol :: jsval
  name :: jsval
  logo :: jsval
  price :: jsnum
  marketCap :: jsnum
  bondingProgress :: "jsnum option"
  createdAt :: jsval
  fetchedAt :: int

definition MAX_AGE_MS :: int where
  "MAX_AGE_MS = 5 * 60 * 1000"

definition MAX_TOKENS :: nat where
  "MAX_TOKENS = 100"

text \<open>\<open>cleanupOldTokens\<close>, with the reading \<open>now\<close> of \<open>Date.now()\<close>.\<close>

definition cleanupOldTokens :: "int \<Rightarrow> token list \<Rightarrow> token list" where
  "cleanupOldTokens now tokens =
     (let cutoff = now - MAX_AGE_MS in filter (\<lambda>t. fetchedAt t > cutoff) tokens)"

text \<open>
  \<open>addToken\<close>: filter out the entries with the token's address, \<open>unshift\<close> the token,
  and keep \<open>slice(0, MAX_TOKENS)\<close> when the list is longer than \<open>MAX_TOKENS\<close>.
\<close>

definition addToken :: "token \<Rightarrow> token list \<Rightarrow> token list" where
  "addToken token tokens =
     (let tokens1 = filter (\<lambda>t. address t \<noteq> address token) tokens;
          tokens2 = token # tokens1
      in if length tokens2 > MAX_TOKENS then take MAX_TOKENS tokens2 else tokens2)"

text \<open>A run of upserts, applied in the order they are received.\<close>

fun upserts :: "token list \<Rightarrow> token list \<Rightarrow> token list" where
  "upserts [] tokens = tokens"
| "upserts (e # es) tokens = upserts es (addToken e tokens)"

section \<open>The feed connection\<close>

text \<open>
  The module variables of the connector: \<open>ws\<close> is \<open>null\<close> or the socket, kept as its
  \<open>readyState\<close>, and \<open>reconnectAttempts\<close> is the retry counter. \<open>scheduled\<close> records
  the delay of every \<open>setTimeout(connectToPumpPortal, delay)\<close> call made so far, oldest
  first, \<open>timers\<close> the delays of the timers that are set and have not fired, and
  \<open>sent\<close> the frames sent on the socket.
\<close>

datatype readyState = CONNECTING | OPEN | CLOSING | CLOSED

record connector =
  ws :: "readyState option"
  reconnectAttempts :: nat
  scheduled :: "nat list"
  timers :: "nat list"
  sent :: "string list"

definition MAX_RECONNECT_ATTEMPTS :: nat where
  "MAX_RECONNECT_ATTEMPTS = 10"

definition RECONNECT_DELAY :: nat where
  "RECONNECT_DELAY = 5000"

definition initialConnector :: connector where
  "initialConnector =
     \<lparr>ws = None, reconnectAttempts = 0, scheduled = [], timers = [], sent = []\<rparr>"

text \<open>\<open>connectToPumpPortal\<close>: \<open>ws = new WebSocket(...)\<close>; the handlers follow.\<close>

definition connectToPumpPortal :: "connector \<Rightarrow> connector" where
  "connectToPumpPortal c = c\<lparr>ws := Some CONNECTING\<rparr>"

text \<open>The \<open>open\<close> handler; \<open>ws?.send\<close> sends only on a socket that is not \<open>null\<close>.\<close>

definition onOpen :: "connector \<Rightarrow> connector" where
  \<open>onOpen c =
     (let c1 = c\<lparr>reconnectAttempts := 0\<rparr>
      in if ws c1 \<noteq> None then c1\<lparr>sent := sent c1 @ [''{"method":"subscribeNewToken"}'']\<rparr>
         else c1)\<close>

text \<open>The \<open>close\<close> handler.\<close>

definition onClose :: "connector \<Rightarrow> connector" where
  "onClose c =
     (let c1 = c\<lparr>ws := None\<rparr>
      in if reconnectAttempts c1 < MAX_RECONNECT_ATTEMPTS
         then c1\<lparr>reconnectAttempts := reconnectAttempts c1 + 1,
                 scheduled := scheduled c1 @ [RECONNECT_DELAY],
                 timers := timers c1 @ [RECONNECT_DELAY]\<rparr>
         else c1)"

text \<open>
  The events of the connector: the socket opens (the library sets its \<open>readyState\<close> to
  \<open>OPEN\<close> before it calls the handler), the socket closes, the oldest timer set by
  the \<open>close\<close> handler fires and calls \<open>connectToPumpPortal\<close> (all the delays are the
  same, so the timers fire in the order they were set; with no timer set there is nothing
  to fire). The \<open>error\<close> handler only logs.
\<close>

datatype event = EvOpen | EvClose | EvTimer | EvError

fun step :: "event \<Rightarrow> connector \<Rightarrow> connector" where
  "step EvOpen c = onOpen (c\<lparr>ws := map_option (\<lambda>_. OPEN) (ws c)\<rparr>)"
| "step EvClose c = onClose c"
| "step EvTimer c =
     (case timers c of [] \<Rightarrow> c | d # ds \<Rightarrow> connectToPumpPortal (c\<lparr>timers := ds\<rparr>))"
| "step EvError c = c"

fun run :: "event list \<Rightarrow> connector \<Rightarrow> connector" where
  "run [] c = c"
| "run (ev # evs) c = run evs (step ev c)"

text \<open>\<open>ws?.readyState === WebSocket.OPEN\<close>.\<close>

definition wsConnected :: "connector \<Rightarrow> bool" where
  "wsConnected c = (ws c = Some OPEN)"

section \<open>Decoding a feed message\<close>

text \<open>
  Strings are lists of characters. \<open>s.startsWith(pre)\<close>, and \<open>s.replace(pat, rep)\<close>
  with a string pattern, which replaces the first occurrence of \<open>pat\<close> (the replacement
  the code passes is empty, so it has none of the \<open>$\<close> patterns).
\<close>

definition startsWith :: "string \<Rightarrow> string \<Rightarrow> bool" where
  "startsWith s pre = (take (length pre) s = pre)"

fun jsReplace :: "string \<Rightarrow> string \<Rightarrow> string \<Rightarrow> string" where
  "jsReplace [] pat rep = (if pat = [] then rep else [])"
| "jsReplace (c # cs) pat rep =
     (if startsWith (c # cs) pat then rep @ drop (length pat) (c # cs)
      else c # jsReplace cs pat rep)"

text \<open>
  The block that computes \<open>logo\<close> from \<open>message.uri\<close>. Only a string has a
  \<open>startsWith\<close> method: on any other truthy value the call throws a TypeError.
\<close>

definition parseLogo :: "jsval \<Rightarrow> error + jsval" where
  "parseLogo uri =
     (if truthy uri then
        (case uri of
           JStr u \<Rightarrow>
             Inr (JStr (if startsWith u ''ipfs://''
                        then ''https://ipfs.io/ipfs/'' @ jsReplace u ''ipfs://'' []
                        else if startsWith u ''http'' then u
                        else ''https://ipfs.io/ipfs/'' @ u))
         | _ \<Rightarrow> Inl TypeError)
      else Inr JUndefined)"

text \<open>
  ToNumber, which \<open>*\<close> and \<open>/\<close> apply to an operand. The conversion of a string, an
  array or an object is the language's (a numeric string is read, an object is first
  converted to a primitive, which can throw): it is the parameter \<open>conv\<close>.
\<close>

fun ToNumber :: "(jsval \<Rightarrow> error + jsnum) \<Rightarrow> jsval \<Rightarrow> error + jsnum" where
  "ToNumber conv JUndefined = Inr NaN"
| "ToNumber conv JNull = Inr (Fin 0)"
| "ToNumber conv (JBool b) = Inr (Fin (if b then 1 else 0))"
| "ToNumber conv (JNum n) = Inr (Fin n)"
| "ToNumber conv v = conv v"

text \<open>
  The arithmetic of doubles (IEEE 754 binary64). The finite doubles are the numbers
  \<open>m * 2 ^ e\<close> with \<open>\<bar>m\<bar> < 2 ^ 53\<close> and \<open>- 1074 \<le> e \<le> 971\<close>. An operation computes
  the exact result and rounds it to the nearest double, a tie to the one whose \<open>m\<close> is
  even, and to an infinity when the rounded value reaches \<open>2 ^ 1024\<close>. \<open>pow2 e\<close> is
  \<open>2 ^ e\<close> for an integer \<open>e\<close>; \<open>ilog2 a\<close> is, for a positive \<open>a\<close>, the integer
  \<open>L\<close> with \<open>2 ^ L \<le> a < 2 ^ (L + 1)\<close>; \<open>roundHalfEven\<close> rounds to the nearest
  integer, a tie to the even one. In \<open>roundDouble\<close>, \<open>e\<close> is the exponent of the
  doubles around \<open>\<bar>x\<bar>\<close> (the smallest exponent below the normal range) and \<open>m\<close> the
  rounded significand.
\<close>

definition pow2 :: "int \<Rightarrow> rat" where
  "pow2 e = (if e \<ge> 0 then 2 ^ nat e else 1 / 2 ^ nat (- e))"

definition ilog2 :: "rat \<Rightarrow> int" where
  "ilog2 a = (if a \<ge> 1 then bitlen \<lfloor>a\<rfloor> - 1 else - bitlen (\<lceil>1 / a\<rceil> - 1))"

definition roundHalfEven :: "rat \<Rightarrow> int" where
  "roundHalfEven q =
     (let f = \<lfloor>q\<rfloor>; d = q - of_int f
      in if d < 1 / 2 then f else if d > 1 / 2 then f + 1 else if even f then f else f + 1)"

definition roundDouble :: "rat \<Rightarrow> jsnum" where
  "roundDouble x =
     (if x = 0 then Fin 0
      else
        (let a = \<bar>x\<bar>;
             e = max (ilog2 a - 52) (- 1074);
             m = roundHalfEven (a / pow2 e);
             r = of_int m * pow2 e
         in if r \<ge> pow2 1024 then (if x > 0 then PosInf else NegInf)
            else Fin (if x > 0 then r else - r)))"

text \<open>
  Multiplication and division of a number by a finite constant that is a double (185, 85
  and 100 in the code): the exact result, rounded.
\<close>

fun jsTimes :: "jsnum \<Rightarrow> rat \<Rightarrow> jsnum" where
  "jsTimes (Fin a) k = roundDouble (a * k)"
| "jsTimes PosInf k = (if k > 0 then PosInf else if k < 0 then NegInf else NaN)"
| "jsTimes NegInf k = (if k > 0 then NegInf else if k < 0 then PosInf else NaN)"
| "jsTimes NaN k = NaN"

fun jsOver :: "jsnum \<Rightarrow> rat \<Rightarrow> jsnum" where
  "jsOver (Fin a) k =
     (if k \<noteq> 0 then roundDouble (a / k)
      else if a > 0 then PosInf else if a < 0 then NegInf else NaN)"
| "jsOver PosInf k = (if k \<ge> 0 then PosInf else NegInf)"
| "jsOver NegInf k = (if k \<ge> 0 then NegInf else PosInf)"
| "jsOver NaN k = NaN"

text \<open>\<open>message.marketCapSol ? message.marketCapSol * 185 : 0\<close>.\<close>

definition marketCapOf :: "(jsval \<Rightarrow> error + jsnum) \<Rightarrow> jsval \<Rightarrow> error + jsnum" where
  "marketCapOf conv v =
     (if truthy v then
        (case ToNumber conv v of Inl e \<Rightarrow> Inl e | Inr x \<Rightarrow> Inr (jsTimes x 185))
      else Inr (Fin 0))"

text \<open>\<open>message.vSolInBondingCurve ? (message.vSolInBondingCurve / 85) * 100 : 0\<close>.\<close>

definition bondingProgressOf :: "(jsval \<Rightarrow> error + jsnum) \<Rightarrow> jsval \<Rightarrow> error + jsnum" where
  "bondingProgressOf conv v =
     (if truthy v then
        (case ToNumber conv v of Inl e \<Rightarrow> Inl e | Inr x \<Rightarrow> Inr (jsTimes (jsOver x 85) 100))
      else Inr (Fin 0))"

text \<open>
  The body of the \<open>try\<close> block of the \<open>message\<close> handler, up to the call of
  \<open>addToken\<close>, for the decoded \<open>message\<close>: \<open>Inl\<close> when it throws, \<open>Inr None\<close> when
  the message is not a creation event, \<open>Inr (Some token)\<close> with the token it builds.
  \<open>now\<close> and \<open>isoNow\<close> are the readings of \<open>Date.now()\<close> and of
  \<open>new Date().toISOString()\<close>. The literal \<open>0.000001\<close> is the double nearest to it.
\<close>

definition messageToken ::
  "(jsval \<Rightarrow> error + jsnum) \<Rightarrow> int \<Rightarrow> string \<Rightarrow> jsval \<Rightarrow> error + token option" where
  "messageToken conv now isoNow message =
     (if nullish message then Inl TypeError
      else if getProp message ''txType'' = JStr ''create'' \<and> truthy (getProp message ''mint'') then
        (case parseLogo (getProp message ''uri'') of
           Inl e \<Rightarrow> Inl e
         | Inr lg \<Rightarrow>
             (case marketCapOf conv (getProp message ''marketCapSol'') of
                Inl e \<Rightarrow> Inl e
              | Inr mc \<Rightarrow>
                  (case bondingProgressOf conv (getProp message ''vSolInBondingCurve'') of
                     Inl e \<Rightarrow> Inl e
                   | Inr bp \<Rightarrow>
                       Inr (Some \<lparr>address = getProp message ''mint'',
                                  symbol = jsOr (getProp message ''symbol'') (JStr ''UNKNOWN''),
                                  name = jsOr (getProp message ''name'') (JStr ''Unknown Token''),
                                  logo = lg,
                                  price = roundDouble (1 / 1000000),
                                  marketCap = mc,
                                  bondingProgress = Some bp,
                                  createdAt = JStr isoNow,
                                  fetchedAt = now\<rparr>))))
      else Inr None)"

text \<open>
  The \<open>message\<close> handler. \<open>decoded\<close> is the outcome of
  \<open>JSON.parse(data.toString())\<close>, \<open>None\<close> when it throws. The \<open>catch\<close> swallows every
  exception, so a message that throws before \<open>addToken\<close> leaves the store as it was. The
  log line after \<open>addToken\<close> can throw too (\<open>token.address.slice\<close> on an address that
  is not a string), after the store has changed.
\<close>

definition onMessage ::
  "(jsval \<Rightarrow> error + jsnum) \<Rightarrow> int \<Rightarrow> string \<Rightarrow> jsval option \<Rightarrow> token list \<Rightarrow> token list" where
  "onMessage conv now isoNow decoded tokens =
     (case decoded of
        None \<Rightarrow> tokens
      | Some message \<Rightarrow>
          (case messageToken conv now isoNow message of
             Inr (Some token) \<Rightarrow> addToken token tokens
           | _ \<Rightarrow> tokens))"

section \<open>The image patch\<close>

text \<open>\<open>xs.findIndex(p)\<close>: the first index whose element satisfies \<open>p\<close>, \<open>None\<close> for \<open>-1\<close>.\<close>

fun findIndex :: "('a \<Rightarrow> bool) \<Rightarrow> 'a list \<Rightarrow> nat option" where
  "findIndex p [] = None"
| "findIndex p (x # xs) = (if p x then Some 0 else map_option Suc (findIndex p xs))"

text \<open>
  The callback the message handler of the second listing of the repository attaches to
  \<open>fetchImageFromMetadata(metadataUrl)\<close>: \<open>token\<close> is the token the handler has added,
  \<open>imageUrl\<close> the value the fetch resolved to (\<open>undefined\<close> when it failed).
\<close>

definition patchImage :: "token \<Rightarrow> jsval \<Rightarrow> token list \<Rightarrow> token list" where
  "patchImage token imageUrl tokens =
     (if truthy imageUrl then
        (case findIndex (\<lambda>t. address t = address token) tokens of
           Some idx \<Rightarrow> tokens[idx := (tokens ! idx)\<lparr>logo := imageUrl\<rparr>]
         | None \<Rightarrow> tokens)
      else tokens)"

section \<open>The poller\<close>

text \<open>
  The token \<open>fetchFromMoralis\<close> builds from one item of \<open>data.result\<close>. \<open>pf\<close> is
  \<open>parseFloat(String(v))\<close>, the language's; \<open>String\<close> can throw on an object.
\<close>

definition moralisToken ::
  "(jsval \<Rightarrow> error + jsnum) \<Rightarrow> int \<Rightarrow> string \<Rightarrow> jsval \<Rightarrow> error + token" where
  "moralisToken pf now isoNow item =
     (if nullish item then Inl TypeError
      else
        (case pf (jsOr (jsOr (getProp item ''priceUsd'') (getProp item ''price'')) (JStr ''0'')) of
           Inl e \<Rightarrow> Inl e
         | Inr pr \<Rightarrow>
             (case pf (jsOr (jsOr (getProp item ''marketCapUsd'') (getProp item ''marketCap''))
                         (JStr ''0'')) of
                Inl e \<Rightarrow> Inl e
              | Inr mc \<Rightarrow>
                  Inr \<lparr>address = jsOr (getProp item ''tokenAddress'') (getProp item ''address''),
                       symbol = jsOr (getProp item ''symbol'') (JStr ''UNKNOWN''),
                       name = jsOr (getProp item ''name'') (JStr ''Unknown''),
                       logo = jsOr (getProp item ''logo'') (getProp item ''image''),
                       price = pr,
                       marketCap = mc,
                       bondingProgress = None,
                       createdAt = jsOr (getProp item ''createdAt'') (JStr isoNow),
                       fetchedAt = now\<rparr>)))"

text \<open>
  The \<open>for\<close> loop over the items. It runs inside the \<open>try\<close> of \<open>fetchFromMoralis\<close>:
  an item that throws ends the loop, and the tokens added before it stay. The loop is
  synchronous; the model takes one reading of the clock for all its items.
\<close>

fun addItems ::
  "(jsval \<Rightarrow> error + jsnum) \<Rightarrow> int \<Rightarrow> string \<Rightarrow> jsval list \<Rightarrow> token list \<Rightarrow> token list" where
  "addItems pf now isoNow [] tokens = tokens"
| "addItems pf now isoNow (item # items) tokens =
     (case moralisToken pf now isoNow item of
        Inl e \<Rightarrow> tokens
      | Inr token \<Rightarrow> addItems pf now isoNow items (addToken token tokens))"

text \<open>
  What the request gave: the fetch rejected, the status was not ok, the body was not
  JSON, or the body decoded to \<open>data\<close>.
\<close>

datatype response = FetchFailed | NotOk | BadBody | Body jsval

definition fetchFromMoralis ::
  "(jsval \<Rightarrow> error + jsnum) \<Rightarrow> int \<Rightarrow> string \<Rightarrow> response \<Rightarrow> token list \<Rightarrow> token list" where
  "fetchFromMoralis pf now isoNow resp tokens =
     (case resp of
        Body data \<Rightarrow>
          (if nullish data then tokens
           else (case getProp data ''result'' of
                   JArr r items \<Rightarrow> addItems pf now isoNow (take 30 items) tokens
                 | _ \<Rightarrow> tokens))
      | _ \<Rightarrow> tokens)"

section \<open>The query route\<close>

text \<open>\<open>xs.slice(0, end)\<close>: a negative \<open>end\<close> counts from the end of the list.\<close>

definition slice0 :: "'a list \<Rightarrow> int \<Rightarrow> 'a list" where
  "slice0 xs end = (if end < 0 then take (nat (int (length xs) + end)) xs else take (nat end) xs)"

record pulseResponse =
  r_tokens :: "token list"
  r_count :: nat
  r_wsConnected :: bool

text \<open>
  \<open>GET /api/pulse/tokens\<close>. \<open>parsed\<close> is the value of
  \<open>parseInt(req.query.limit)\<close>, \<open>None\<close> for \<open>NaN\<close> (a missing or unparsable
  parameter). The route sweeps the store first, so it returns the store too.
\<close>

definition getPulseTokens ::
  "int \<Rightarrow> int option \<Rightarrow> connector \<Rightarrow> token list \<Rightarrow> pulseResponse \<times> token list" where
  "getPulseTokens now parsed c tokens =
     (let tokens1 = cleanupOldTokens now tokens;
          limit = min (case parsed of None \<Rightarrow> 50 | Some n \<Rightarrow> if n = 0 then 50 else n) 100
      in (\<lparr>r_tokens = slice0 tokens1 limit,
           r_count = length tokens1,
           r_wsConnected = wsConnected c\<rparr>, tokens1))"

section \<open>Sample data\<close>

text \<open>A token with the address \<open>a\<close>, the symbol \<open>s\<close> and the time \<open>f\<close> of its fetch.\<close>

definition sampleToken :: "string \<Rightarrow> string \<Rightarrow> int \<Rightarrow> token" where
  "sampleToken a s f =
     \<lparr>address = JStr a, symbol = JStr s, name = JStr ''Unknown Token'', logo = JUndefined,
      price = Fin 0, marketCap = Fin 0, bondingProgress = None,
      createdAt = JStr ''2024-01-01T00:00:00.000Z'', fetchedAt = f\<rparr>"

text \<open>
  The message \<open>{txType:"create", mint:"ABC", symbol:"FOO", marketCapSol:10,
  vSolInBondingCurve:42.5}\<close>, decoded.
\<close>

definition sampleMessage :: jsval where
  "sampleMessage =
     JObj 0 [(''txType'', JStr ''create''), (''mint'', JStr ''ABC''), (''symbol'', JStr ''FOO''),
             (''marketCapSol'', JNum 10), (''vSolInBondingCurve'', JNum (85 / 2))]"

text \<open>A conversion that throws on every string, array and object: the samples have none.\<close>

definition noConv :: "jsval \<Rightarrow> error + jsnum" where
  "noConv v = Inl TypeError"

text \<open>
  \<open>parseFloat(String(v))\<close> at the string \<open>"0"\<close>, the only value the poller passes it
  for an item with no price and no market capitalisation.
\<close>

definition pfZero :: "jsval \<Rightarrow> error + jsnum" where
  "pfZero v = (if v = JStr ''0'' then Inr (Fin 0) else Inl TypeError)"

section \<open>Properties of the store\<close>

lemma addToken_take:
  "addToken e s = take MAX_TOKENS (e # filter (\<lambda>t. address t \<noteq> address e) s)"
  by (simp add: addToken_def Let_def)

lemma addToken_Cons:
  "addToken e s = e # take (MAX_TOKENS - 1) (filter (\<lambda>t. address t \<noteq> address e) s)"
  by (simp add: addToken_take MAX_TOKENS_def)

lemma addToken_same_id:
  "filter (\<lambda>t. address t = address e) (addToken e s) = [e]"
proof -
  have "filter (\<lambda>t. address t = address e)
          (take (MAX_TOKENS - 1) (filter (\<lambda>t. address t \<noteq> address e) s)) = []"
    by (auto simp: filter_empty_conv dest: in_set_takeD)
  then show ?thesis
    by (simp add: addToken_Cons)
qed

text \<open>
  C1. For every store and every entry \<open>e\<close>, \<open>addToken\<close> returns a store (the function is
  total: it has no failing branch) whose first entry is \<open>e\<close> and whose other entries are
  the old entries with another id, in their old order, up to the capacity; the only entry
  with the id of \<open>e\<close> is \<open>e\<close> itself. In particular, upserting \<open>e1\<close> and then an entry
  \<open>e2\<close> with the same id and another payload leaves exactly one entry with that id,
  \<open>e2\<close>, at the front.
\<close>

theorem addToken_upsert:
  "hd (addToken e s) = e
   \<and> addToken e s \<noteq> []
   \<and> tl (addToken e s) = take (MAX_TOKENS - 1) (filter (\<lambda>t. address t \<noteq> address e) s)
   \<and> filter (\<lambda>t. address t = address e) (addToken e s) = [e]
   \<and> (address e1 = address e2 \<and> e1 \<noteq> e2 \<longrightarrow>
        hd (addToken e2 (addToken e1 s)) = e2
        \<and> filter (\<lambda>t. address t = address e2) (addToken e2 (addToken e1 s)) = [e2]
        \<and> e1 \<notin> set (addToken e2 (addToken e1 s)))"
proof -
  have "e1 \<notin> set (addToken e2 (addToken e1 s))" if "address e1 = address e2" "e1 \<noteq> e2"
  proof
    assume "e1 \<in> set (addToken e2 (addToken e1 s))"
    with that have "e1 \<in> set (filter (\<lambda>t. address t = address e2) (addToken e2 (addToken e1 s)))"
      by simp
    then show False
      using that by (simp add: addToken_same_id)
  qed
  then show ?thesis
    by (simp add: addToken_same_id) (simp add: addToken_Cons)
qed

theorem addToken_upsert_witness:
  "address (sampleToken ''A'' ''OLD'' 1) = address (sampleToken ''A'' ''NEW'' 2)
   \<and> sampleToken ''A'' ''OLD'' 1 \<noteq> sampleToken ''A'' ''NEW'' 2
   \<and> hd (addToken (sampleToken ''A'' ''NEW'' 2)
            (addToken (sampleToken ''A'' ''OLD'' 1) [sampleToken ''B'' ''Y'' 0]))
       = sampleToken ''A'' ''NEW'' 2
   \<and> filter (\<lambda>t. address t = JStr ''A'')
        (addToken (sampleToken ''A'' ''NEW'' 2)
           (addToken (sampleToken ''A'' ''OLD'' 1) [sampleToken ''B'' ''Y'' 0]))
       = [sampleToken ''A'' ''NEW'' 2]
   \<and> sampleToken ''A'' ''OLD'' 1
       \<notin> set (addToken (sampleToken ''A'' ''NEW'' 2)
                (addToken (sampleToken ''A'' ''OLD'' 1) [sampleToken ''B'' ''Y'' 0]))"
  using addToken_upsert [where ?e1.0 = "sampleToken ''A'' ''OLD'' 1"
      and ?e2.0 = "sampleToken ''A'' ''NEW'' 2" and s = "[sampleToken ''B'' ''Y'' 0]"]
  by (simp add: sampleToken_def)

lemma take_filter_take:
  "distinct xs \<Longrightarrow> m = Suc n \<Longrightarrow>
   take n (filter (\<lambda>x. x \<noteq> a) (take m xs)) = take n (filter (\<lambda>x. x \<noteq> a) xs)"
proof (induction xs arbitrary: m n)
  case Nil
  then show ?case by simp
next
  case (Cons x xs)
  show ?case
  proof (cases "x = a")
    case True
    with Cons.prems have "a \<notin> set xs" by simp
    then have "filter (\<lambda>x. x \<noteq> a) xs = xs" "filter (\<lambda>x. x \<noteq> a) (take n xs) = take n xs"
      by (auto simp: filter_id_conv dest: in_set_takeD)
    with True Cons.prems show ?thesis by simp
  next
    case False
    with Cons show ?thesis by (cases n) simp_all
  qed
qed

lemma remdups_snoc_filter: "remdups (xs @ [a]) = filter (\<lambda>x. x \<noteq> a) (remdups xs) @ [a]"
  by (induction xs) auto

lemma remdups_snoc: "rev (remdups (xs @ [a])) = a # filter (\<lambda>x. x \<noteq> a) (rev (remdups xs))"
  by (simp add: remdups_snoc_filter rev_filter)

lemma upserts_snoc: "upserts (es @ [e]) s = addToken e (upserts es s)"
  by (induction es arbitrary: s) simp_all

lemma map_address_addToken:
  "map address (addToken e s) = take MAX_TOKENS (address e # filter (\<lambda>x. x \<noteq> address e) (map address s))"
proof -
  let ?F = "filter (\<lambda>t. address t \<noteq> address e) s"
  have "map address (take MAX_TOKENS (e # ?F)) = take MAX_TOKENS (map address (e # ?F))"
    by (simp only: take_map)
  then show ?thesis
    by (simp add: addToken_take filter_map comp_def)
qed

lemma upserts_ids:
  "map address (upserts es []) = take MAX_TOKENS (rev (remdups (map address es)))"
proof (induction es rule: rev_induct)
  case Nil
  then show ?case by simp
next
  case (snoc e es)
  let ?D = "rev (remdups (map address es))"
  have d: "distinct ?D" by simp
  have "map address (upserts (es @ [e]) []) =
      take MAX_TOKENS (address e # filter (\<lambda>x. x \<noteq> address e) (take MAX_TOKENS ?D))"
    by (simp add: upserts_snoc map_address_addToken snoc.IH)
  also have "\<dots> = address e # take 99 (filter (\<lambda>x. x \<noteq> address e) (take 100 ?D))"
    by (simp add: MAX_TOKENS_def)
  also have "\<dots> = address e # take 99 (filter (\<lambda>x. x \<noteq> address e) ?D)"
    using take_filter_take [OF d, of 100 99 "address e"] by simp
  also have "\<dots> = take MAX_TOKENS (rev (remdups (map address (es @ [e]))))"
    using remdups_snoc [of "map address es" "address e"] by (simp add: MAX_TOKENS_def)
  finally show ?case .
qed

lemma length_addToken: "length (addToken e s) \<le> MAX_TOKENS"
  by (simp add: addToken_take)

lemma length_upserts: "length s \<le> MAX_TOKENS \<Longrightarrow> length (upserts es s) \<le> MAX_TOKENS"
  by (induction es arbitrary: s) (simp_all add: length_addToken)

text \<open>
  C2. The capacity is 100. Every upsert leaves at most 100 entries, whatever the store
  was. After any run \<open>es\<close> of upserts on the empty store of the program's start, the ids
  of the store, front to back, are the first 100 of \<open>rev (remdups (map address es))\<close>:
  the distinct ids of the run, each at the place of its last upsert, the most recently
  upserted first. So the entries dropped are the ones upserted longest ago, no id occurs
  twice, and \<open>fetchedAt\<close> plays no part in the choice.
\<close>

theorem upserts_capacity:
  "MAX_TOKENS = 100
   \<and> length (addToken e s) \<le> MAX_TOKENS
   \<and> length (upserts es []) \<le> MAX_TOKENS
   \<and> map address (upserts es []) = take MAX_TOKENS (rev (remdups (map address es)))
   \<and> distinct (map address (upserts es []))"
proof -
  have "distinct (take MAX_TOKENS (rev (remdups (map address es))))"
    by (rule distinct_take) simp
  then show ?thesis
    by (simp add: upserts_ids length_addToken length_upserts) (simp add: MAX_TOKENS_def)
qed

lemma cleanup_filter:
  "cleanupOldTokens now s = filter (\<lambda>t. fetchedAt t > now - MAX_AGE_MS) s"
  by (simp add: cleanupOldTokens_def)

lemma max_age: "MAX_AGE_MS = 300000"
  by (simp add: MAX_AGE_MS_def)

text \<open>
  C3, as the code has it. The window is the constant \<open>MAX_AGE_MS\<close>, 300000 ms. After
  \<open>cleanupOldTokens\<close> at the time \<open>now\<close>, every remaining entry has
  \<open>fetchedAt > now - MAX_AGE_MS\<close>, every entry of the store with
  \<open>fetchedAt > now - MAX_AGE_MS\<close> remains, every entry with
  \<open>fetchedAt \<le> now - MAX_AGE_MS\<close> is gone (also the one that is exactly
  \<open>MAX_AGE_MS\<close> old), and the survivors keep their relative order: the result is the
  store filtered, a subsequence of it.
\<close>

theorem cleanupOldTokens_sweep:
  "MAX_AGE_MS = 300000
   \<and> (\<forall>t \<in> set (cleanupOldTokens now s). fetchedAt t > now - MAX_AGE_MS)
   \<and> (\<forall>t \<in> set s. fetchedAt t > now - MAX_AGE_MS \<longrightarrow> t \<in> set (cleanupOldTokens now s))
   \<and> (\<forall>t \<in> set s. fetchedAt t \<le> now - MAX_AGE_MS \<longrightarrow> t \<notin> set (cleanupOldTokens now s))
   \<and> cleanupOldTokens now s = filter (\<lambda>t. fetchedAt t > now - MAX_AGE_MS) s
   \<and> subseq (cleanupOldTokens now s) s"
proof -
  have "subseq (cleanupOldTokens now s) s"
    unfolding cleanup_filter by (rule subseq_filter_left)
  moreover have "\<forall>t \<in> set s. fetchedAt t \<le> now - MAX_AGE_MS \<longrightarrow> t \<notin> set (cleanupOldTokens now s)"
    unfolding cleanup_filter by auto
  moreover have "\<forall>t \<in> set (cleanupOldTokens now s). fetchedAt t > now - MAX_AGE_MS"
    unfolding cleanup_filter by simp
  moreover have "\<forall>t \<in> set s. fetchedAt t > now - MAX_AGE_MS \<longrightarrow> t \<in> set (cleanupOldTokens now s)"
    unfolding cleanup_filter by simp
  ultimately show ?thesis
    using cleanup_filter max_age by blast
qed

theorem cleanupOldTokens_sweep_witness:
  "sampleToken ''A'' ''X'' 10 \<in> set (cleanupOldTokens 300005
       [sampleToken ''A'' ''X'' 10, sampleToken ''B'' ''Y'' 5, sampleToken ''C'' ''Z'' 0])
   \<and> fetchedAt (sampleToken ''A'' ''X'' 10) > 300005 - MAX_AGE_MS
   \<and> sampleToken ''B'' ''Y'' 5 \<in> set [sampleToken ''A'' ''X'' 10, sampleToken ''B'' ''Y'' 5,
        sampleToken ''C'' ''Z'' 0]
   \<and> fetchedAt (sampleToken ''B'' ''Y'' 5) \<le> 300005 - MAX_AGE_MS
   \<and> cleanupOldTokens 300005
       [sampleToken ''A'' ''X'' 10, sampleToken ''B'' ''Y'' 5, sampleToken ''C'' ''Z'' 0]
     = [sampleToken ''A'' ''X'' 10]"
  using cleanupOldTokens_sweep [of 300005
      "[sampleToken ''A'' ''X'' 10, sampleToken ''B'' ''Y'' 5, sampleToken ''C'' ''Z'' 0]"]
  by (simp add: sampleToken_def MAX_AGE_MS_def)

text \<open>
  The claim C3 as it is written keeps an entry whose \<open>fetchedAt\<close> is exactly
  \<open>now - W\<close>. With the window of the code and \<open>now = 300000\<close>, an entry fetched at
  time 0 satisfies \<open>fetchedAt \<ge> now - W\<close> and is removed.
\<close>

theorem cleanupOldTokens_boundary_counterexample:
  "fetchedAt (sampleToken ''A'' ''X'' 0) \<ge> 300000 - MAX_AGE_MS
   \<and> sampleToken ''A'' ''X'' 0 \<notin> set (cleanupOldTokens 300000 [sampleToken ''A'' ''X'' 0])"
  by (simp add: cleanupOldTokens_def MAX_AGE_MS_def sampleToken_def)

lemma getPulseTokens_parts:
  "snd (getPulseTokens now parsed c s) = cleanupOldTokens now s"
  "r_count (fst (getPulseTokens now parsed c s)) = length (cleanupOldTokens now s)"
  "r_wsConnected (fst (getPulseTokens now parsed c s)) = wsConnected c"
  "r_tokens (fst (getPulseTokens now parsed c s)) =
     slice0 (cleanupOldTokens now s)
       (min (case parsed of None \<Rightarrow> 50 | Some n \<Rightarrow> if n = 0 then 50 else n) 100)"
  by (simp_all add: getPulseTokens_def Let_def)

lemma slice0_pos: "0 \<le> n \<Longrightarrow> slice0 xs n = take (nat n) xs"
  by (simp add: slice0_def)

text \<open>
  C4, as the code has it. The route sweeps the store, and answers with the entries of the
  swept store from the front, in the store's order, and with the number of entries of
  the swept store. With a limit that \<open>parseInt\<close> reads as a positive integer \<open>n\<close> it
  returns the first \<open>min n 100\<close> entries. With a missing or unparsable limit, and with
  the limit 0, it returns the first 50.
\<close>

theorem getPulseTokens_limit:
  "snd (getPulseTokens now parsed c s) = cleanupOldTokens now s
   \<and> r_count (fst (getPulseTokens now parsed c s)) = length (cleanupOldTokens now s)
   \<and> (parsed = None \<or> parsed = Some 0 \<longrightarrow>
        r_tokens (fst (getPulseTokens now parsed c s)) = take 50 (cleanupOldTokens now s))
   \<and> (parsed = Some n \<and> 0 < n \<longrightarrow>
        r_tokens (fst (getPulseTokens now parsed c s))
          = take (min (nat n) 100) (cleanupOldTokens now s)
        \<and> length (r_tokens (fst (getPulseTokens now parsed c s))) \<le> nat n
        \<and> length (r_tokens (fst (getPulseTokens now parsed c s))) \<le> 100)"
proof -
  have a: "r_tokens (fst (getPulseTokens now parsed c s)) = take 50 (cleanupOldTokens now s)"
    if "parsed = None \<or> parsed = Some 0"
    using that by (auto simp: getPulseTokens_parts slice0_pos)
  have b: "r_tokens (fst (getPulseTokens now parsed c s))
          = take (min (nat n) 100) (cleanupOldTokens now s)"
    if "parsed = Some n" "0 < n"
  proof -
    have "nat (min n 100) = min (nat n) 100" using that by simp
    with that show ?thesis
      by (simp add: getPulseTokens_parts slice0_pos)
  qed
  have c: "length (take (min (nat n) 100) (cleanupOldTokens now s)) \<le> nat n"
    "length (take (min (nat n) 100) (cleanupOldTokens now s)) \<le> 100"
    by simp_all
  from a b c show ?thesis
    by (auto simp: getPulseTokens_parts(1,2))
qed

theorem getPulseTokens_limit_witness:
  "r_tokens (fst (getPulseTokens 10 None initialConnector
       [sampleToken ''A'' ''X'' 5, sampleToken ''B'' ''Y'' 4]))
     = [sampleToken ''A'' ''X'' 5, sampleToken ''B'' ''Y'' 4]
   \<and> (0::int) < 1
   \<and> r_tokens (fst (getPulseTokens 10 (Some 1) initialConnector
       [sampleToken ''A'' ''X'' 5, sampleToken ''B'' ''Y'' 4]))
     = [sampleToken ''A'' ''X'' 5]
   \<and> r_count (fst (getPulseTokens 10 (Some 1) initialConnector
       [sampleToken ''A'' ''X'' 5, sampleToken ''B'' ''Y'' 4])) = 2"
  using getPulseTokens_limit [of 10 None initialConnector
      "[sampleToken ''A'' ''X'' 5, sampleToken ''B'' ''Y'' 4]" 1]
    getPulseTokens_limit [of 10 "Some 1" initialConnector
      "[sampleToken ''A'' ''X'' 5, sampleToken ''B'' ''Y'' 4]" 1]
  by (simp add: cleanup_filter MAX_AGE_MS_def sampleToken_def)

text \<open>
  The claim C4 as it is written caps the entries at the limit for every integer limit.
  With the limit 0 the route returns an entry.
\<close>

theorem getPulseTokens_zero_counterexample:
  "r_tokens (fst (getPulseTokens 10 (Some 0) initialConnector [sampleToken ''A'' ''X'' 5]))
     = [sampleToken ''A'' ''X'' 5]
   \<and> \<not> length (r_tokens (fst (getPulseTokens 10 (Some 0) initialConnector
            [sampleToken ''A'' ''X'' 5]))) \<le> nat 0"
  by (simp add: getPulseTokens_parts slice0_pos cleanup_filter MAX_AGE_MS_def sampleToken_def)

lemma messageToken_SomeD:
  assumes "messageToken conv now isoNow m = Inr (Some t)"
  shows "getProp m ''txType'' = JStr ''create''" and "truthy (getProp m ''mint'')"
    and "parseLogo (getProp m ''uri'') = Inr (logo t)"
    and "marketCapOf conv (getProp m ''marketCapSol'') = Inr (marketCap t)"
    and "bondingProgressOf conv (getProp m ''vSolInBondingCurve'') = Inr (the (bondingProgress t))"
    and "bondingProgress t \<noteq> None"
    and "address t = getProp m ''mint''"
    and "symbol t = jsOr (getProp m ''symbol'') (JStr ''UNKNOWN'')"
  using assms
  by (auto simp: messageToken_def split: if_splits sum.splits)

lemma onMessage_changed:
  assumes "onMessage conv now isoNow d s \<noteq> s"
  shows "\<exists>m t. d = Some m \<and> messageToken conv now isoNow m = Inr (Some t)"
  using assms
  by (auto simp: onMessage_def split: option.splits sum.splits)

lemma onMessage_Some:
  "messageToken conv now isoNow m = Inr (Some t) \<Longrightarrow>
   onMessage conv now isoNow (Some m) s = addToken t s"
  by (simp add: onMessage_def)

lemma onMessage_not_create:
  "getProp m ''txType'' \<noteq> JStr ''create'' \<or> \<not> truthy (getProp m ''mint'') \<Longrightarrow>
   onMessage conv now isoNow (Some m) s = s"
  by (auto simp: onMessage_def messageToken_def split: sum.splits option.splits)

text \<open>
  C5. A message that does not decode leaves the store as it was. So does a decoded message
  whose \<open>txType\<close> is missing or is not the string \<open>create\<close>, and one whose
  \<open>mint\<close> is missing or is the empty string. Whenever the handler changes the store,
  the message decoded, its \<open>txType\<close> is \<open>create\<close> and its \<open>mint\<close> is present
  and not empty (it is truthy).
\<close>

theorem onMessage_filter:
  "onMessage conv now isoNow None s = s
   \<and> (getProp m ''txType'' \<noteq> JStr ''create'' \<longrightarrow> onMessage conv now isoNow (Some m) s = s)
   \<and> (getProp m ''mint'' = JUndefined \<or> getProp m ''mint'' = JStr [] \<longrightarrow>
        onMessage conv now isoNow (Some m) s = s)
   \<and> (onMessage conv now isoNow d s \<noteq> s \<longrightarrow>
        (\<exists>m'. d = Some m' \<and> getProp m' ''txType'' = JStr ''create''
           \<and> getProp m' ''mint'' \<noteq> JUndefined \<and> getProp m' ''mint'' \<noteq> JStr []
           \<and> truthy (getProp m' ''mint'')))"
proof -
  have a: "onMessage conv now isoNow None s = s"
    by (simp add: onMessage_def)
  have b: "onMessage conv now isoNow (Some m) s = s" if "getProp m ''txType'' \<noteq> JStr ''create''"
    using that by (simp add: onMessage_not_create)
  have c: "onMessage conv now isoNow (Some m) s = s"
    if "getProp m ''mint'' = JUndefined \<or> getProp m ''mint'' = JStr []"
    using that by (auto simp: onMessage_not_create)
  have d: "\<exists>m'. d = Some m' \<and> getProp m' ''txType'' = JStr ''create''
           \<and> getProp m' ''mint'' \<noteq> JUndefined \<and> getProp m' ''mint'' \<noteq> JStr []
           \<and> truthy (getProp m' ''mint'')"
    if "onMessage conv now isoNow d s \<noteq> s"
  proof -
    from onMessage_changed [OF that] obtain m' t
      where m': "d = Some m'" "messageToken conv now isoNow m' = Inr (Some t)"
      by blast
    from messageToken_SomeD(1,2) [OF m'(2)] m'(1) show ?thesis
      by auto
  qed
  from a b c d show ?thesis
    by blast
qed

theorem onMessage_filter_witness:
  "getProp (JObj 0 [(''txType'', JStr ''buy'')]) ''txType'' \<noteq> JStr ''create''
   \<and> getProp (JObj 0 [(''txType'', JStr ''buy'')]) ''mint'' = JUndefined
   \<and> onMessage noConv 7 ''t'' (Some (JObj 0 [(''txType'', JStr ''buy'')]))
        [sampleToken ''A'' ''X'' 5] = [sampleToken ''A'' ''X'' 5]
   \<and> onMessage noConv 7 ''t'' (Some sampleMessage) [sampleToken ''A'' ''X'' 5]
        \<noteq> [sampleToken ''A'' ''X'' 5]
   \<and> getProp sampleMessage ''txType'' = JStr ''create''
   \<and> getProp sampleMessage ''mint'' = JStr ''ABC''"
  using onMessage_filter [of noConv 7 "''t''" "[sampleToken ''A'' ''X'' 5]"
      "JObj 0 [(''txType'', JStr ''buy'')]" "Some sampleMessage"]
  by (simp add: sampleMessage_def onMessage_def messageToken_def parseLogo_def marketCapOf_def
      bondingProgressOf_def addToken_Cons sampleToken_def jsOr_def MAX_TOKENS_def)

lemma jsReplace_prefix:
  "startsWith u pat \<Longrightarrow> jsReplace u pat rep = rep @ drop (length pat) u"
  by (cases u) (auto simp: startsWith_def)

lemma startsWith_ipfs_length: "length ''ipfs://'' = 7"
  by simp

lemma parseLogo_ipfs:
  assumes "u \<noteq> []" "startsWith u ''ipfs://''"
  shows "parseLogo (JStr u) = Inr (JStr (''https://ipfs.io/ipfs/'' @ drop 7 u))"
proof -
  have "jsReplace u ''ipfs://'' [] = [] @ drop (length ''ipfs://'') u"
    by (rule jsReplace_prefix [OF assms(2)])
  then have "jsReplace u ''ipfs://'' [] = drop 7 u"
    by (simp only: startsWith_ipfs_length append_Nil)
  with assms show ?thesis
    by (simp add: parseLogo_def)
qed

lemma parseLogo_http:
  "u \<noteq> [] \<Longrightarrow> \<not> startsWith u ''ipfs://'' \<Longrightarrow> startsWith u ''http'' \<Longrightarrow>
   parseLogo (JStr u) = Inr (JStr u)"
  by (simp add: parseLogo_def)

lemma parseLogo_bare:
  "u \<noteq> [] \<Longrightarrow> \<not> startsWith u ''ipfs://'' \<Longrightarrow> \<not> startsWith u ''http'' \<Longrightarrow>
   parseLogo (JStr u) = Inr (JStr (''https://ipfs.io/ipfs/'' @ u))"
  by (simp add: parseLogo_def)

lemma parseLogo_falsy: "\<not> truthy v \<Longrightarrow> parseLogo v = Inr JUndefined"
  by (simp add: parseLogo_def)

lemma parseLogo_sample:
  "parseLogo (JStr ''ipfs://abc123'') = Inr (JStr ''https://ipfs.io/ipfs/abc123'')"
  by (simp add: parseLogo_def startsWith_def)

text \<open>
  C6, as the code has it. For every URI \<open>u\<close> that is a string and not empty: if \<open>u\<close>
  starts with \<open>ipfs://\<close>, the logo is the gateway base \<open>https://ipfs.io/ipfs/\<close>
  followed by \<open>u\<close> without its first seven characters (so \<open>ipfs://abc123\<close> gives
  \<open>https://ipfs.io/ipfs/abc123\<close>); otherwise, if \<open>u\<close> starts with \<open>http\<close>, the logo
  is \<open>u\<close>; otherwise it is the gateway base followed by \<open>u\<close>. With the URI missing,
  and with the empty string, the logo is left \<open>undefined\<close>. The logo of the token an
  accepted message builds, and of the entry the handler puts at the front of the store,
  is this value at \<open>message.uri\<close>.
\<close>

theorem parseLogo_cases:
  "(u \<noteq> [] \<and> startsWith u ''ipfs://'' \<longrightarrow>
      parseLogo (JStr u) = Inr (JStr (''https://ipfs.io/ipfs/'' @ drop 7 u)))
   \<and> (u \<noteq> [] \<and> \<not> startsWith u ''ipfs://'' \<and> startsWith u ''http'' \<longrightarrow>
      parseLogo (JStr u) = Inr (JStr u))
   \<and> (u \<noteq> [] \<and> \<not> startsWith u ''ipfs://'' \<and> \<not> startsWith u ''http'' \<longrightarrow>
      parseLogo (JStr u) = Inr (JStr (''https://ipfs.io/ipfs/'' @ u)))
   \<and> parseLogo JUndefined = Inr JUndefined
   \<and> parseLogo (JStr []) = Inr JUndefined
   \<and> parseLogo (JStr ''ipfs://abc123'') = Inr (JStr ''https://ipfs.io/ipfs/abc123'')
   \<and> (messageToken conv now isoNow m = Inr (Some t) \<longrightarrow>
        parseLogo (getProp m ''uri'') = Inr (logo t)
        \<and> logo (hd (onMessage conv now isoNow (Some m) s)) = logo t)"
proof -
  have "logo (hd (onMessage conv now isoNow (Some m) s)) = logo t"
    if "messageToken conv now isoNow m = Inr (Some t)"
    using that by (simp add: onMessage_Some addToken_Cons)
  then show ?thesis
    using parseLogo_ipfs [of u] parseLogo_http [of u] parseLogo_bare [of u]
      parseLogo_falsy [of JUndefined] parseLogo_falsy [of "JStr []"] parseLogo_sample
      messageToken_SomeD(3) [of conv now isoNow m t]
    by simp
qed

theorem parseLogo_cases_witness:
  "startsWith ''ipfs://Qm1'' ''ipfs://''
   \<and> parseLogo (JStr ''ipfs://Qm1'') = Inr (JStr ''https://ipfs.io/ipfs/Qm1'')
   \<and> \<not> startsWith ''https://a.b/c'' ''ipfs://'' \<and> startsWith ''https://a.b/c'' ''http''
   \<and> parseLogo (JStr ''https://a.b/c'') = Inr (JStr ''https://a.b/c'')
   \<and> \<not> startsWith ''Qm2'' ''ipfs://'' \<and> \<not> startsWith ''Qm2'' ''http''
   \<and> parseLogo (JStr ''Qm2'') = Inr (JStr ''https://ipfs.io/ipfs/Qm2'')
   \<and> messageToken noConv 7 ''t''
        (JObj 0 [(''txType'', JStr ''create''), (''mint'', JStr ''ABC''),
                 (''uri'', JStr ''ipfs://Qm1'')])
       = Inr (Some \<lparr>address = JStr ''ABC'', symbol = JStr ''UNKNOWN'',
            name = JStr ''Unknown Token'', logo = JStr ''https://ipfs.io/ipfs/Qm1'',
            price = roundDouble (1 / 1000000), marketCap = Fin 0, bondingProgress = Some (Fin 0),
            createdAt = JStr ''t'', fetchedAt = 7\<rparr>)
   \<and> logo (hd (onMessage noConv 7 ''t''
        (Some (JObj 0 [(''txType'', JStr ''create''), (''mint'', JStr ''ABC''),
                 (''uri'', JStr ''ipfs://Qm1'')])) [])) = JStr ''https://ipfs.io/ipfs/Qm1''"
  using parseLogo_cases [of "''ipfs://Qm1''" noConv 7 "''t''"
      "JObj 0 [(''txType'', JStr ''create''), (''mint'', JStr ''ABC''),
               (''uri'', JStr ''ipfs://Qm1'')]"
      "\<lparr>address = JStr ''ABC'', symbol = JStr ''UNKNOWN'',
            name = JStr ''Unknown Token'', logo = JStr ''https://ipfs.io/ipfs/Qm1'',
            price = roundDouble (1 / 1000000), marketCap = Fin 0, bondingProgress = Some (Fin 0),
            createdAt = JStr ''t'', fetchedAt = 7\<rparr>" "[]"]
    parseLogo_cases [of "''https://a.b/c''" noConv 7 "''t''" JNull "sampleToken ''A'' ''X'' 0" "[]"]
    parseLogo_cases [of "''Qm2''" noConv 7 "''t''" JNull "sampleToken ''A'' ''X'' 0" "[]"]
  by (simp add: startsWith_def messageToken_def parseLogo_def marketCapOf_def
      bondingProgressOf_def jsOr_def)

text \<open>
  The claim C6 as it is written appends every string that starts with neither prefix to
  the gateway base. The empty string starts with neither, and the logo of its message is
  \<open>undefined\<close>, not the gateway base.
\<close>

theorem parseLogo_empty_counterexample:
  "\<not> startsWith [] ''ipfs://'' \<and> \<not> startsWith [] ''http''
   \<and> parseLogo (JStr []) \<noteq> Inr (JStr (''https://ipfs.io/ipfs/'' @ []))
   \<and> messageToken noConv 7 ''t''
        (JObj 0 [(''txType'', JStr ''create''), (''mint'', JStr ''ABC''), (''uri'', JStr [])])
       = Inr (Some \<lparr>address = JStr ''ABC'', symbol = JStr ''UNKNOWN'',
            name = JStr ''Unknown Token'', logo = JUndefined,
            price = roundDouble (1 / 1000000), marketCap = Fin 0, bondingProgress = Some (Fin 0),
            createdAt = JStr ''t'', fetchedAt = 7\<rparr>)"
  by (simp add: startsWith_def messageToken_def parseLogo_def marketCapOf_def
      bondingProgressOf_def jsOr_def)


lemma roundDouble_pos:
  assumes "x > 0" "ilog2 x = L" "max (L - 52) (- 1074) = e" "roundHalfEven (x / pow2 e) = m"
    "of_int m * pow2 e = r" "r < pow2 1024"
  shows "roundDouble x = Fin r"
proof -
  from assms(1) have nz: "x \<noteq> 0" and ab: "\<bar>x\<bar> = x"
    by simp_all
  from assms(6) have no: "\<not> pow2 1024 \<le> r"
    by (simp only: not_le)
  show ?thesis
    unfolding roundDouble_def Let_def ab assms(2) assms(3) assms(4) assms(5)
    by (simp only: nz no assms(1) if_False if_True)
qed

lemma roundDouble_overflow:
  assumes "x > 0" "ilog2 x = L" "max (L - 52) (- 1074) = e" "roundHalfEven (x / pow2 e) = m"
    "of_int m * pow2 e = r" "pow2 1024 \<le> r"
  shows "roundDouble x = PosInf"
proof -
  from assms(1) have nz: "x \<noteq> 0" and ab: "\<bar>x\<bar> = x"
    by simp_all
  show ?thesis
    unfolding roundDouble_def Let_def ab assms(2) assms(3) assms(4) assms(5)
    by (simp only: nz assms(1) assms(6) if_False if_True)
qed

lemma roundHalfEven_near:
  assumes "\<bar>q - of_int m\<bar> < 1 / 2"
  shows "roundHalfEven q = m"
proof (cases "of_int m \<le> q")
  case True
  from assms True have "q < of_int m + 1"
    by linarith
  with True have f: "\<lfloor>q\<rfloor> = m"
    by (rule floor_unique)
  from assms True have "q - of_int m < 1 / 2"
    by linarith
  then show ?thesis
    unfolding roundHalfEven_def Let_def f by (simp only: if_True)
next
  case False
  have m1: "(of_int (m - 1) :: rat) = of_int m - 1"
    by simp
  from assms False have "of_int (m - 1) \<le> q" "q < of_int (m - 1) + 1"
    unfolding m1 by linarith+
  then have f: "\<lfloor>q\<rfloor> = m - 1"
    by (rule floor_unique)
  from assms False have d: "\<not> q - of_int (m - 1) < 1 / 2" "q - of_int (m - 1) > 1 / 2"
    unfolding m1 by linarith+
  show ?thesis
    unfolding roundHalfEven_def Let_def f using d by (simp only: if_True if_False)
qed

lemma bitlen_unique:
  assumes "0 < n" "2 ^ k \<le> n" "n < 2 ^ Suc k"
  shows "bitlen n = int k + 1"
proof -
  from bitlen_bounds [OF assms(1)]
  have lo: "2 ^ nat (bitlen n - 1) \<le> n" and hi: "n < 2 ^ nat (bitlen n)"
    by simp_all
  from assms(2) hi have "(2::int) ^ k < 2 ^ nat (bitlen n)"
    by linarith
  then have 1: "k < nat (bitlen n)"
    by simp
  from lo assms(3) have "(2::int) ^ nat (bitlen n - 1) < 2 ^ Suc k"
    by linarith
  then have 2: "nat (bitlen n - 1) < Suc k"
    by (simp only: power_strict_increasing_iff one_less_numeral_iff semiring_norm)
  from 1 2 show ?thesis
    by linarith
qed

lemma ilog2_ge:
  assumes "0 \<le> L" "pow2 L \<le> a" "a < pow2 (L + 1)"
  shows "ilog2 a = L"
proof -
  from assms have lo: "2 ^ nat L \<le> a" and hi: "a < 2 ^ Suc (nat L)"
    by (simp_all add: pow2_def nat_add_distrib)
  have "(1::rat) \<le> 2 ^ nat L"
    by simp
  with lo have a1: "1 \<le> a"
    by linarith
  from lo have "of_int (2 ^ nat L) \<le> a"
    by simp
  then have l: "2 ^ nat L \<le> \<lfloor>a\<rfloor>"
    by (simp only: le_floor_iff)
  from hi have "a < of_int (2 ^ Suc (nat L))"
    by simp
  then have h: "\<lfloor>a\<rfloor> < 2 ^ Suc (nat L)"
    by (simp only: floor_less_iff)
  have "(0::int) < 2 ^ nat L"
    by simp
  with l have p: "0 < \<lfloor>a\<rfloor>"
    by linarith
  from bitlen_unique [OF p l h] a1 assms(1) show ?thesis
    by (simp add: ilog2_def)
qed

lemma ilog2_lt:
  assumes "L < 0" "pow2 L \<le> a" "a < pow2 (L + 1)"
  shows "ilog2 a = L"
proof -
  define k where "k = nat (- L) - 1"
  from assms(1) have L: "L = - int (Suc k)"
    by (simp add: k_def)
  from assms(1) have n: "nat (- L) = Suc k"
    by (simp add: k_def)
  from assms(1) have "pow2 L = 1 / 2 ^ nat (- L)"
    by (simp add: pow2_def)
  with assms(2) have lo: "1 / 2 ^ Suc k \<le> a"
    by (simp only: n)
  have "pow2 (L + 1) = 1 / 2 ^ k"
  proof (cases "L + 1 < 0")
    case True
    then have "nat (- (L + 1)) = k"
      by (simp add: k_def)
    with True show ?thesis
      by (simp add: pow2_def)
  next
    case False
    with assms(1) have "L + 1 = 0" "k = 0"
      by (simp_all add: k_def)
    then show ?thesis
      by (simp add: pow2_def)
  qed
  with assms(3) have hi: "a < 1 / 2 ^ k"
    by (simp only:)
  have pos: "0 < a"
    using lo by (rule less_le_trans [rotated]) simp
  have "(1::rat) / 2 ^ k \<le> 1"
    by simp
  with hi have a1: "\<not> 1 \<le> a"
    by linarith
  from lo pos have b_hi: "1 / a \<le> 2 ^ Suc k"
    by (simp add: field_simps)
  from hi pos have b_lo: "2 ^ k < 1 / a"
    by (simp add: field_simps)
  from b_hi have "1 / a \<le> of_int (2 ^ Suc k)"
    by simp
  then have c_hi: "\<lceil>1 / a\<rceil> \<le> 2 ^ Suc k"
    by (simp only: ceiling_le_iff)
  from b_lo have "of_int (2 ^ k) < 1 / a"
    by simp
  then have c_lo: "2 ^ k < \<lceil>1 / a\<rceil>"
    by (simp only: less_ceiling_iff)
  have "(0::int) < 2 ^ k"
    by simp
  with c_lo have p: "0 < \<lceil>1 / a\<rceil> - 1" and l: "2 ^ k \<le> \<lceil>1 / a\<rceil> - 1"
    by linarith+
  from c_hi have h: "\<lceil>1 / a\<rceil> - 1 < 2 ^ Suc k"
    by linarith
  from bitlen_unique [OF p l h] a1 show ?thesis
    by (simp add: ilog2_def L)
qed

lemma ilog2_eq:
  assumes "pow2 L \<le> a" "a < pow2 (L + 1)"
  shows "ilog2 a = L"
  using assms ilog2_ge [of L a] ilog2_lt [of L a] by (cases "0 \<le> L") simp_all

lemma roundDouble_posI:
  assumes "0 < x" "pow2 L \<le> x" "x < pow2 (L + 1)" "max (L - 52) (- 1074) = e"
    "\<bar>x / pow2 e - of_int m\<bar> < 1 / 2" "of_int m * pow2 e = r" "r < pow2 1024"
  shows "roundDouble x = Fin r"
  by (rule roundDouble_pos [OF assms(1) ilog2_eq [OF assms(2,3)] assms(4)
        roundHalfEven_near [OF assms(5)] assms(6,7)])

lemma roundDouble_overflowI:
  assumes "0 < x" "pow2 L \<le> x" "x < pow2 (L + 1)" "max (L - 52) (- 1074) = e"
    "\<bar>x / pow2 e - of_int m\<bar> < 1 / 2" "of_int m * pow2 e = r" "pow2 1024 \<le> r"
  shows "roundDouble x = PosInf"
  by (rule roundDouble_overflow [OF assms(1) ilog2_eq [OF assms(2,3)] assms(4)
        roundHalfEven_near [OF assms(5)] assms(6,7)])

lemma roundDouble_1850: "roundDouble 1850 = Fin 1850"
  by (rule roundDouble_posI [where L = 10 and e = "- 42" and m = 8136386045542400])
    (simp_all add: pow2_def)

lemma roundDouble_half: "roundDouble (1 / 2) = Fin (1 / 2)"
  by (rule roundDouble_posI [where L = "- 1" and e = "- 53" and m = 4503599627370496])
    (simp_all add: pow2_def)

lemma roundDouble_50: "roundDouble 50 = Fin 50"
  by (rule roundDouble_posI [where L = 5 and e = "- 47" and m = 7036874417766400])
    (simp_all add: pow2_def)

lemma roundDouble_5_85: "roundDouble (1 / 17) = Fin (4238682002231055 / 72057594037927936)"
  by (rule roundDouble_posI [where L = "- 5" and e = "- 57" and m = 8477364004462110])
    (simp_all add: pow2_def)

lemma roundDouble_5_85_100:
  "roundDouble (105967050055776375 / 18014398509481984) = Fin (6622940628486023 / 1125899906842624)"
  by (rule roundDouble_posI [where L = 2 and e = "- 50" and m = 6622940628486023])
    (simp_all add: pow2_def)

lemma roundDouble_500_85:
  "roundDouble (100 / 17) = Fin (827867578560753 / 140737488355328)"
  by (rule roundDouble_posI [where L = 2 and e = "- 50" and m = 6622940628486024])
    (simp_all add: pow2_def)

lemma roundDouble_overflow_sample:
  "roundDouble (100000000000000001097906362944045541740492309677311846336810682903157585404911491537163328978494688899061249669721172515611590283743140088328307009198146046031271664502933027185697489699588559043338384466165001178426897626212945177628091195786707458122783970171784415105291802893207873272974885715430223118336 * 185) = PosInf"
  by (rule roundDouble_overflowI [where L = 1030 and e = 978 and m = 7241623957063671 and r = "7241623957063671 * 2 ^ 978"])
    (simp_all add: pow2_def)

lemma roundDouble_0: "roundDouble 0 = Fin 0"
  by (simp add: roundDouble_def)

lemma marketCapOf_num: "marketCapOf conv (JNum x) = Inr (roundDouble (x * 185))"
  by (cases "x = 0") (simp_all add: marketCapOf_def roundDouble_0)

lemma marketCapOf_absent: "marketCapOf conv JUndefined = Inr (Fin 0)"
  by (simp add: marketCapOf_def)

lemma bondingProgressOf_num:
  "bondingProgressOf conv (JNum v) = Inr (jsTimes (roundDouble (v / 85)) 100)"
  by (cases "v = 0") (simp_all add: bondingProgressOf_def roundDouble_0)

lemma bondingProgressOf_absent: "bondingProgressOf conv JUndefined = Inr (Fin 0)"
  by (simp add: bondingProgressOf_def)

lemma messageToken_sample:
  "messageToken conv now isoNow sampleMessage =
     Inr (Some \<lparr>address = JStr ''ABC'', symbol = JStr ''FOO'', name = JStr ''Unknown Token'',
                logo = JUndefined, price = roundDouble (1 / 1000000), marketCap = Fin 1850,
                bondingProgress = Some (Fin 50), createdAt = JStr isoNow, fetchedAt = now\<rparr>)"
  by (simp add: sampleMessage_def messageToken_def parseLogo_def marketCapOf_def
      bondingProgressOf_def jsOr_def roundDouble_1850 roundDouble_half roundDouble_50)

lemma bondingProgressOf_5:
  "bondingProgressOf conv (JNum 5) = Inr (Fin (6622940628486023 / 1125899906842624))"
  by (simp add: bondingProgressOf_num roundDouble_5_85 roundDouble_5_85_100)

lemma other_order_5:
  "jsOver (jsTimes (Fin 5) 100) 85 = Fin (827867578560753 / 140737488355328)"
proof -
  have "roundDouble 500 = Fin 500"
    by (rule roundDouble_posI [where L = 8 and e = "- 44" and m = 8796093022208000])
      (simp_all add: pow2_def)
  then show ?thesis
    by (simp add: roundDouble_500_85)
qed

lemma marketCapOf_overflow:
  "marketCapOf conv (JNum 100000000000000001097906362944045541740492309677311846336810682903157585404911491537163328978494688899061249669721172515611590283743140088328307009198146046031271664502933027185697489699588559043338384466165001178426897626212945177628091195786707458122783970171784415105291802893207873272974885715430223118336) = Inr PosInf"
  by (simp only: marketCapOf_num roundDouble_overflow_sample)

text \<open>
  C7. For every message the handler accepts (one it builds a token \<open>t\<close> from), the
  entry it stores at the front of the store is \<open>t\<close>. When \<open>marketCapSol\<close> is the
  number \<open>x\<close>, \<open>marketCap\<close> is the product of \<open>x\<close> and 185 as the doubles of the
  language compute it: the exact product, rounded. When \<open>vSolInBondingCurve\<close> is the
  number \<open>v\<close>, \<open>bondingProgress\<close> is the double quotient of \<open>v\<close> by 85, multiplied
  in doubles by 100; when it is missing, \<open>bondingProgress\<close> is 0. The sample message
  of the claim yields \<open>marketCap\<close> 1850, \<open>bondingProgress\<close> 50 and the symbol
  \<open>FOO\<close>. The last three facts show the rounding at work: for \<open>v = 5\<close> the
  progress is the double 5.88235294117647, not the double 5.882352941176471 that
  multiplying first and dividing then gives, and for the double 1e308 the market
  capitalisation overflows to \<open>Infinity\<close>.
\<close>

theorem messageToken_numbers:
  "(messageToken conv now isoNow m = Inr (Some t) \<longrightarrow>
      onMessage conv now isoNow (Some m) s = addToken t s
      \<and> hd (onMessage conv now isoNow (Some m) s) = t
      \<and> (getProp m ''marketCapSol'' = JNum x \<longrightarrow> marketCap t = roundDouble (x * 185))
      \<and> (getProp m ''vSolInBondingCurve'' = JNum v \<longrightarrow>
           bondingProgress t = Some (jsTimes (roundDouble (v / 85)) 100))
      \<and> (getProp m ''vSolInBondingCurve'' = JUndefined \<longrightarrow> bondingProgress t = Some (Fin 0)))
   \<and> marketCap (hd (onMessage conv now isoNow (Some sampleMessage) s)) = Fin 1850
   \<and> bondingProgress (hd (onMessage conv now isoNow (Some sampleMessage) s)) = Some (Fin 50)
   \<and> symbol (hd (onMessage conv now isoNow (Some sampleMessage) s)) = JStr ''FOO''
   \<and> bondingProgressOf conv (JNum 5) = Inr (Fin (6622940628486023 / 1125899906842624))
   \<and> jsOver (jsTimes (Fin 5) 100) 85 = Fin (827867578560753 / 140737488355328)
   \<and> marketCapOf conv (JNum 100000000000000001097906362944045541740492309677311846336810682903157585404911491537163328978494688899061249669721172515611590283743140088328307009198146046031271664502933027185697489699588559043338384466165001178426897626212945177628091195786707458122783970171784415105291802893207873272974885715430223118336) = Inr PosInf"
proof -
  have a: "onMessage conv now isoNow (Some m) s = addToken t s
      \<and> hd (onMessage conv now isoNow (Some m) s) = t
      \<and> (getProp m ''marketCapSol'' = JNum x \<longrightarrow> marketCap t = roundDouble (x * 185))
      \<and> (getProp m ''vSolInBondingCurve'' = JNum v \<longrightarrow>
           bondingProgress t = Some (jsTimes (roundDouble (v / 85)) 100))
      \<and> (getProp m ''vSolInBondingCurve'' = JUndefined \<longrightarrow> bondingProgress t = Some (Fin 0))"
    if h: "messageToken conv now isoNow m = Inr (Some t)"
  proof -
    note d = messageToken_SomeD [OF h]
    have mc: "marketCap t = roundDouble (x * 185)" if "getProp m ''marketCapSol'' = JNum x"
      using d(4) that by (simp only: marketCapOf_num sum.inject)
    have bp: "bondingProgress t = Some (jsTimes (roundDouble (v / 85)) 100)"
      if "getProp m ''vSolInBondingCurve'' = JNum v"
      using d(5,6) that by (auto simp: bondingProgressOf_num)
    have bp0: "bondingProgress t = Some (Fin 0)"
      if "getProp m ''vSolInBondingCurve'' = JUndefined"
      using d(5,6) that by (auto simp: bondingProgressOf_absent)
    have hd: "hd (addToken t s) = t"
      by (simp add: addToken_Cons)
    from mc bp bp0 hd show ?thesis
      unfolding onMessage_Some [OF h] by blast
  qed
  have b: "hd (onMessage conv now isoNow (Some sampleMessage) s) =
     \<lparr>address = JStr ''ABC'', symbol = JStr ''FOO'', name = JStr ''Unknown Token'',
                logo = JUndefined, price = roundDouble (1 / 1000000), marketCap = Fin 1850,
                bondingProgress = Some (Fin 50), createdAt = JStr isoNow, fetchedAt = now\<rparr>"
    by (simp add: onMessage_Some [OF messageToken_sample] addToken_Cons)
  have c: "marketCap (hd (onMessage conv now isoNow (Some sampleMessage) s)) = Fin 1850"
    "bondingProgress (hd (onMessage conv now isoNow (Some sampleMessage) s)) = Some (Fin 50)"
    "symbol (hd (onMessage conv now isoNow (Some sampleMessage) s)) = JStr ''FOO''"
    unfolding b by simp_all
  from a c bondingProgressOf_5 other_order_5 marketCapOf_overflow show ?thesis
    by blast
qed

theorem messageToken_numbers_witness:
  "messageToken noConv 7 ''t'' sampleMessage =
     Inr (Some \<lparr>address = JStr ''ABC'', symbol = JStr ''FOO'', name = JStr ''Unknown Token'',
                logo = JUndefined, price = roundDouble (1 / 1000000), marketCap = Fin 1850,
                bondingProgress = Some (Fin 50), createdAt = JStr ''t'', fetchedAt = 7\<rparr>)
   \<and> getProp sampleMessage ''marketCapSol'' = JNum 10
   \<and> getProp sampleMessage ''vSolInBondingCurve'' = JNum (85 / 2)
   \<and> roundDouble (10 * 185) = Fin 1850
   \<and> jsTimes (roundDouble (85 / 2 / 85)) 100 = Fin 50
   \<and> onMessage noConv 7 ''t'' (Some sampleMessage) [] =
     [\<lparr>address = JStr ''ABC'', symbol = JStr ''FOO'', name = JStr ''Unknown Token'',
                logo = JUndefined, price = roundDouble (1 / 1000000), marketCap = Fin 1850,
                bondingProgress = Some (Fin 50), createdAt = JStr ''t'', fetchedAt = 7\<rparr>]"
proof -
  let ?t = "\<lparr>address = JStr ''ABC'', symbol = JStr ''FOO'', name = JStr ''Unknown Token'',
                logo = JUndefined, price = roundDouble (1 / 1000000), marketCap = Fin 1850,
                bondingProgress = Some (Fin 50), createdAt = JStr ''t'', fetchedAt = 7\<rparr>"
  have h: "messageToken noConv 7 ''t'' sampleMessage = Inr (Some ?t)"
    by (rule messageToken_sample)
  have g: "getProp sampleMessage ''marketCapSol'' = JNum 10"
    "getProp sampleMessage ''vSolInBondingCurve'' = JNum (85 / 2)"
    by (simp_all add: sampleMessage_def)
  have r: "roundDouble (10 * 185) = Fin 1850" "jsTimes (roundDouble (85 / 2 / 85)) 100 = Fin 50"
    by (simp_all add: roundDouble_1850 roundDouble_half roundDouble_50)
  from messageToken_numbers [of noConv 7 "''t''" sampleMessage ?t "[]" 10 "85 / 2"] h
  have "onMessage noConv 7 ''t'' (Some sampleMessage) [] = addToken ?t []"
    by blast
  also have "\<dots> = [?t]"
    by (simp add: addToken_Cons)
  finally show ?thesis
    using h g r by (simp only: simp_thms)
qed

lemma onClose_simps:
  "ws (onClose c) = None"
  "sent (onClose c) = sent c"
  "reconnectAttempts (onClose c) =
     (if reconnectAttempts c < MAX_RECONNECT_ATTEMPTS then reconnectAttempts c + 1
      else reconnectAttempts c)"
  "scheduled (onClose c) =
     (if reconnectAttempts c < MAX_RECONNECT_ATTEMPTS then scheduled c @ [RECONNECT_DELAY]
      else scheduled c)"
  "timers (onClose c) =
     (if reconnectAttempts c < MAX_RECONNECT_ATTEMPTS then timers c @ [RECONNECT_DELAY]
      else timers c)"
  by (simp_all add: onClose_def Let_def)

lemma step_close_live:
  assumes "reconnectAttempts c < MAX_RECONNECT_ATTEMPTS"
  shows "reconnectAttempts (step EvClose c) = reconnectAttempts c + 1"
    and "scheduled (step EvClose c) = scheduled c @ [RECONNECT_DELAY]"
  using assms by (simp_all add: onClose_simps)

lemma step_other:
  assumes "ev \<noteq> EvOpen" "ev \<noteq> EvClose \<or> \<not> reconnectAttempts c < MAX_RECONNECT_ATTEMPTS"
  shows "reconnectAttempts (step ev c) = reconnectAttempts c"
    and "scheduled (step ev c) = scheduled c"
proof -
  show "reconnectAttempts (step ev c) = reconnectAttempts c"
  proof (cases ev)
    case EvClose
    with assms show ?thesis by (simp add: onClose_simps)
  next
    case EvTimer
    then show ?thesis by (simp add: connectToPumpPortal_def split: list.split)
  qed (use assms in simp_all)
  show "scheduled (step ev c) = scheduled c"
  proof (cases ev)
    case EvClose
    with assms show ?thesis by (simp add: onClose_simps)
  next
    case EvTimer
    then show ?thesis by (simp add: connectToPumpPortal_def split: list.split)
  qed (use assms in simp_all)
qed

lemma run_no_open:
  assumes "EvOpen \<notin> set evs" "reconnectAttempts c \<le> MAX_RECONNECT_ATTEMPTS"
  shows "reconnectAttempts (run evs c) =
           min (reconnectAttempts c + count_list evs EvClose) MAX_RECONNECT_ATTEMPTS
         \<and> scheduled (run evs c) =
           scheduled c @ replicate (min (count_list evs EvClose)
                                       (MAX_RECONNECT_ATTEMPTS - reconnectAttempts c))
                                  RECONNECT_DELAY"
  using assms
proof (induction evs arbitrary: c)
  case Nil
  then show ?case by simp
next
  case (Cons ev evs)
  from Cons.prems have ev: "ev \<noteq> EvOpen" and evs: "EvOpen \<notin> set evs"
    by auto
  let ?c' = "step ev c"
  have run: "run (ev # evs) c = run evs ?c'"
    by simp
  show ?case
  proof (cases "ev = EvClose \<and> reconnectAttempts c < MAX_RECONNECT_ATTEMPTS")
    case True
    then have r: "reconnectAttempts ?c' = reconnectAttempts c + 1"
      and s: "scheduled ?c' = scheduled c @ [RECONNECT_DELAY]"
      using step_close_live [of c] by simp_all
    from True have n: "count_list (ev # evs) EvClose = count_list evs EvClose + 1"
      by simp
    from True have "reconnectAttempts ?c' \<le> MAX_RECONNECT_ATTEMPTS"
      unfolding r by simp
    note ih = Cons.IH [OF evs this]
    from True have m: "min (count_list evs EvClose + 1) (MAX_RECONNECT_ATTEMPTS - reconnectAttempts c)
        = Suc (min (count_list evs EvClose) (MAX_RECONNECT_ATTEMPTS - (reconnectAttempts c + 1)))"
      by arith
    from ih show ?thesis
      unfolding run r s n m by simp
  next
    case False
    then have f: "ev \<noteq> EvClose \<or> \<not> reconnectAttempts c < MAX_RECONNECT_ATTEMPTS"
      by simp
    note r = step_other(1) [OF ev f] and s = step_other(2) [OF ev f]
    from Cons.prems(2) have "reconnectAttempts ?c' \<le> MAX_RECONNECT_ATTEMPTS"
      unfolding r .
    note ih = Cons.IH [OF evs this]
    from f show ?thesis
    proof
      assume "ev \<noteq> EvClose"
      then have n: "count_list (ev # evs) EvClose = count_list evs EvClose"
        by simp
      from ih show ?thesis
        unfolding run r s n .
    next
      assume "\<not> reconnectAttempts c < MAX_RECONNECT_ATTEMPTS"
      with Cons.prems(2) have "reconnectAttempts c = MAX_RECONNECT_ATTEMPTS"
        by simp
      with ih show ?thesis
        unfolding run r s by simp
    qed
  qed
qed

lemma step_terminal:
  assumes "ev \<noteq> EvOpen" "reconnectAttempts c = MAX_RECONNECT_ATTEMPTS" "timers c = []"
    "ws c = None"
  shows "step ev c = c"
proof (cases ev)
  case EvClose
  with assms show ?thesis by (simp add: onClose_def)
next
  case EvTimer
  with assms show ?thesis by simp
qed (use assms in simp_all)

lemma run_terminal:
  assumes "EvOpen \<notin> set evs" "reconnectAttempts c = MAX_RECONNECT_ATTEMPTS" "timers c = []"
    "ws c = None"
  shows "run evs c = c"
  using assms(1)
proof (induction evs)
  case Nil
  show ?case by simp
next
  case (Cons ev evs)
  then have "ev \<noteq> EvOpen" "EvOpen \<notin> set evs"
    by auto
  with Cons.IH step_terminal [OF _ assms(2,3,4), of ev] show ?case
    by simp
qed

lemma onClose_exhausted:
  "reconnectAttempts c = MAX_RECONNECT_ATTEMPTS \<Longrightarrow> onClose c = c\<lparr>ws := None\<rparr>"
  by (simp add: onClose_def)

lemma count_list_replicate: "count_list (replicate n x) x = n"
  by (induction n) simp_all

text \<open>
  C8. The budget is 10 attempts and the delay is always 5000 ms. From a state whose retry
  counter is 0 (the start, or any state after an \<open>open\<close>), after any events with no
  \<open>open\<close> among them, of which \<open>N\<close> are \<open>close\<close> events, exactly \<open>min N 10\<close>
  reconnects have been scheduled, each with the delay 5000, and the counter is
  \<open>min N 10\<close>; in particular after \<open>n\<close> \<open>close\<close> events in a row from the start.
  The \<open>open\<close> handler resets the counter to 0. Once the counter is 10 and no timer is
  left to fire, a \<open>close\<close> only clears the socket: the connector is not connected, and
  no later event other than an \<open>open\<close> changes its state or schedules a reconnect.
\<close>

theorem reconnect_budget:
  "MAX_RECONNECT_ATTEMPTS = 10 \<and> RECONNECT_DELAY = 5000
   \<and> (reconnectAttempts c = 0 \<and> EvOpen \<notin> set evs \<longrightarrow>
        scheduled (run evs c)
          = scheduled c @ replicate (min (count_list evs EvClose) 10) RECONNECT_DELAY
        \<and> reconnectAttempts (run evs c) = min (count_list evs EvClose) 10)
   \<and> scheduled (run (replicate n EvClose) initialConnector) = replicate (min n 10) 5000
   \<and> reconnectAttempts (step EvOpen c) = 0
   \<and> (reconnectAttempts c = 10 \<and> timers c = [] \<and> EvOpen \<notin> set evs \<longrightarrow>
        step EvClose c = c\<lparr>ws := None\<rparr>
        \<and> \<not> wsConnected (step EvClose c)
        \<and> run evs (step EvClose c) = step EvClose c)"
proof -
  have a: "scheduled (run evs c)
          = scheduled c @ replicate (min (count_list evs EvClose) 10) RECONNECT_DELAY
        \<and> reconnectAttempts (run evs c) = min (count_list evs EvClose) 10"
    if "reconnectAttempts c = 0" "EvOpen \<notin> set evs"
    using run_no_open [of evs c] that by (simp add: MAX_RECONNECT_ATTEMPTS_def)
  have "EvOpen \<notin> set (replicate n EvClose)"
    by simp
  from run_no_open [OF this, of initialConnector]
  have b: "scheduled (run (replicate n EvClose) initialConnector) = replicate (min n 10) 5000"
    by (simp add: initialConnector_def MAX_RECONNECT_ATTEMPTS_def RECONNECT_DELAY_def
        count_list_replicate)
  have c: "reconnectAttempts (step EvOpen c) = 0"
    by (simp add: onOpen_def Let_def)
  have d: "step EvClose c = c\<lparr>ws := None\<rparr> \<and> \<not> wsConnected (step EvClose c)
        \<and> run evs (step EvClose c) = step EvClose c"
    if "reconnectAttempts c = 10" "timers c = []" "EvOpen \<notin> set evs"
  proof -
    from that(1) have e: "step EvClose c = c\<lparr>ws := None\<rparr>"
      by (simp add: onClose_exhausted MAX_RECONNECT_ATTEMPTS_def)
    have "run evs (c\<lparr>ws := None\<rparr>) = c\<lparr>ws := None\<rparr>"
      using that by (intro run_terminal) (simp_all add: MAX_RECONNECT_ATTEMPTS_def)
    with e show ?thesis
      by (simp add: wsConnected_def)
  qed
  have e: "MAX_RECONNECT_ATTEMPTS = 10" "RECONNECT_DELAY = 5000"
    by (simp_all add: MAX_RECONNECT_ATTEMPTS_def RECONNECT_DELAY_def)
  from a b c d e show ?thesis
    by blast
qed


theorem reconnect_budget_witness:
  "reconnectAttempts initialConnector = 0
   \<and> EvOpen \<notin> set (replicate 12 EvClose)
   \<and> scheduled (run (replicate 12 EvClose) initialConnector) = replicate 10 5000
   \<and> reconnectAttempts (run (replicate 12 EvClose) initialConnector) = 10
   \<and> reconnectAttempts \<lparr>ws = Some OPEN, reconnectAttempts = 10, scheduled = replicate 10 5000,
         timers = [], sent = []\<rparr> = 10
   \<and> EvOpen \<notin> set [EvClose, EvTimer, EvError]
   \<and> run [EvClose, EvTimer, EvError]
         (step EvClose \<lparr>ws = Some OPEN, reconnectAttempts = 10, scheduled = replicate 10 5000,
            timers = [], sent = []\<rparr>)
       = \<lparr>ws = None, reconnectAttempts = 10, scheduled = replicate 10 5000,
            timers = [], sent = []\<rparr>"
proof -
  let ?c = "run (replicate 12 EvClose) initialConnector"
  let ?d = "\<lparr>ws = Some OPEN, reconnectAttempts = 10, scheduled = replicate 10 5000,
            timers = [], sent = []\<rparr>"
  have h1: "reconnectAttempts initialConnector = 0" "EvOpen \<notin> set (replicate 12 EvClose)"
    by (simp_all add: initialConnector_def)
  note t1 = reconnect_budget [of initialConnector "replicate 12 EvClose" 12]
  from t1 h1 have "scheduled ?c = scheduled initialConnector
        @ replicate (min (count_list (replicate 12 EvClose) EvClose) 10) RECONNECT_DELAY"
    and "reconnectAttempts ?c = min (count_list (replicate 12 EvClose) EvClose) 10"
    and "RECONNECT_DELAY = 5000"
    by blast+
  then have r: "reconnectAttempts ?c = 10" and s: "scheduled ?c = replicate 10 5000"
    by (simp_all add: count_list_replicate initialConnector_def)
  have h2: "reconnectAttempts ?d = 10" "timers ?d = []"
    "EvOpen \<notin> set [EvClose, EvTimer, EvError]"
    by simp_all
  note t2 = reconnect_budget [of ?d "[EvClose, EvTimer, EvError]" 0]
  from t2 h2 have "step EvClose ?d = ?d\<lparr>ws := None\<rparr>"
    and "run [EvClose, EvTimer, EvError] (step EvClose ?d) = step EvClose ?d"
    by blast+
  then have "run [EvClose, EvTimer, EvError] (step EvClose ?d) = ?d\<lparr>ws := None\<rparr>"
    by (simp only:)
  also have "?d\<lparr>ws := None\<rparr> = \<lparr>ws = None, reconnectAttempts = 10,
      scheduled = replicate 10 5000, timers = [], sent = []\<rparr>"
    by simp
  finally show ?thesis
    using h1 h2 r s by (simp only: simp_thms)
qed

lemma findIndex_None: "findIndex p xs = None \<longleftrightarrow> (\<forall>x \<in> set xs. \<not> p x)"
  by (induction xs) auto

lemma findIndex_Some:
  "findIndex p xs = Some i \<Longrightarrow> i < length xs \<and> p (xs ! i) \<and> (\<forall>j < i. \<not> p (xs ! j))"
proof (induction xs arbitrary: i)
  case Nil
  then show ?case by simp
next
  case (Cons x xs)
  show ?case
  proof (cases "p x")
    case True
    with Cons.prems show ?thesis by simp
  next
    case False
    with Cons.prems obtain k where k: "findIndex p xs = Some k" "i = Suc k"
      by auto
    from Cons.IH [OF k(1)] False k(2) show ?thesis
      by (auto simp: less_Suc_eq_0_disj)
  qed
qed

lemma patchImage_cases:
  "patchImage tk u s = s
   \<or> (\<exists>i. truthy u \<and> findIndex (\<lambda>t. address t = address tk) s = Some i
          \<and> patchImage tk u s = s[i := (s ! i)\<lparr>logo := u\<rparr>])"
  by (auto simp: patchImage_def split: option.splits)

lemma map_update_same:
  "i < length s \<Longrightarrow> f (s ! i) = f y \<Longrightarrow> map f (s[i := y]) = map f s"
  by (simp add: map_update list_update_same_conv)

lemma patchImage_map:
  assumes "\<And>t v. f (t\<lparr>logo := v\<rparr>) = f t"
  shows "map f (patchImage tk u s) = map f s"
  using patchImage_cases [of tk u s]
proof
  assume "patchImage tk u s = s"
  then show ?thesis by simp
next
  assume "\<exists>i. truthy u \<and> findIndex (\<lambda>t. address t = address tk) s = Some i
          \<and> patchImage tk u s = s[i := (s ! i)\<lparr>logo := u\<rparr>]"
  then obtain i where i: "findIndex (\<lambda>t. address t = address tk) s = Some i"
    "patchImage tk u s = s[i := (s ! i)\<lparr>logo := u\<rparr>]"
    by blast
  from findIndex_Some [OF i(1)] have "i < length s" by simp
  then show ?thesis
    unfolding i(2) by (rule map_update_same) (simp add: assms)
qed

lemma patchImage_other:
  assumes "i < length s" "address (s ! i) \<noteq> address tk"
  shows "patchImage tk u s ! i = s ! i"
  using patchImage_cases [of tk u s]
proof
  assume "patchImage tk u s = s"
  then show ?thesis by simp
next
  assume "\<exists>i. truthy u \<and> findIndex (\<lambda>t. address t = address tk) s = Some i
          \<and> patchImage tk u s = s[i := (s ! i)\<lparr>logo := u\<rparr>]"
  then obtain k where k: "findIndex (\<lambda>t. address t = address tk) s = Some k"
    "patchImage tk u s = s[k := (s ! k)\<lparr>logo := u\<rparr>]"
    by blast
  from findIndex_Some [OF k(1)] assms(2) have "k \<noteq> i" by auto
  then show ?thesis
    unfolding k(2) by simp
qed

lemma patchImage_absent:
  "address tk \<notin> address ` set s \<Longrightarrow> patchImage tk u s = s"
proof -
  assume "address tk \<notin> address ` set s"
  then have "\<forall>x \<in> set s. address x \<noteq> address tk"
    by (metis imageI)
  then have "findIndex (\<lambda>t. address t = address tk) s = None"
    by (simp add: findIndex_None)
  then show ?thesis by (simp add: patchImage_def)
qed

lemma findIndex_distinct:
  assumes "distinct (map address s)" "findIndex (\<lambda>t. address t = a) s = Some i"
    "j < length s" "address (s ! j) = a"
  shows "j = i"
proof -
  from findIndex_Some [OF assms(2)] have "i < length s" "address (s ! i) = a" by simp_all
  with assms(3,4) have "map address s ! i = map address s ! j" "i < length (map address s)"
    "j < length (map address s)"
    by simp_all
  with nth_eq_iff_index_eq [OF assms(1), of i j] show ?thesis
    by blast
qed

lemma patchImage_present:
  assumes "truthy u" "distinct (map address s)" "i < length s" "address (s ! i) = address tk"
  shows "patchImage tk u s = s[i := (s ! i)\<lparr>logo := u\<rparr>]"
proof -
  from assms(3,4) have "\<not> (\<forall>x \<in> set s. address x \<noteq> address tk)"
    by (metis nth_mem)
  then obtain k where k: "findIndex (\<lambda>t. address t = address tk) s = Some k"
    using findIndex_None [of "\<lambda>t. address t = address tk" s] by auto
  from findIndex_distinct [OF assms(2) k assms(3,4)] have "i = k" .
  with k assms(1) show ?thesis
    by (simp add: patchImage_def)
qed


text \<open>
  C9, as the code has it. The patch looks the entry up by the id of the token it was
  started for. It never changes the number of entries, their ids or their order, nor any
  field other than \<open>logo\<close>, and every entry with another id stays as it was; so no
  removed entry comes back. When no entry has the id (the entry was evicted), and when
  the image is missing, the store is unchanged. When the image is present and the ids of
  the store are distinct, the entry that has the id gets the image as its \<open>logo\<close>,
  also when that entry is a later one that replaced the token.
\<close>

theorem patchImage_frame:
  "length (patchImage tk u s) = length s
   \<and> map address (patchImage tk u s) = map address s
   \<and> map (\<lambda>t. t\<lparr>logo := JUndefined\<rparr>) (patchImage tk u s) = map (\<lambda>t. t\<lparr>logo := JUndefined\<rparr>) s
   \<and> (\<forall>i < length s. address (s ! i) \<noteq> address tk \<longrightarrow> patchImage tk u s ! i = s ! i)
   \<and> (address tk \<notin> address ` set s \<longrightarrow> patchImage tk u s = s)
   \<and> (\<not> truthy u \<longrightarrow> patchImage tk u s = s)
   \<and> (truthy u \<and> distinct (map address s) \<longrightarrow>
        (\<forall>i < length s. address (s ! i) = address tk \<longrightarrow>
           patchImage tk u s = s[i := (s ! i)\<lparr>logo := u\<rparr>]))"
proof -
  have a: "map address (patchImage tk u s) = map address s"
    by (rule patchImage_map) simp
  have b: "map (\<lambda>t. t\<lparr>logo := JUndefined\<rparr>) (patchImage tk u s)
      = map (\<lambda>t. t\<lparr>logo := JUndefined\<rparr>) s"
    by (rule patchImage_map) simp
  from a have c: "length (patchImage tk u s) = length s"
    by (rule map_eq_imp_length_eq)
  have d: "\<not> truthy u \<longrightarrow> patchImage tk u s = s"
    by (simp add: patchImage_def)
  from a b c d show ?thesis
    using patchImage_other [of _ s tk u] patchImage_absent [of tk s u]
      patchImage_present [of u s _ tk]
    by blast
qed

theorem patchImage_frame_witness:
  "(1::nat) < length [sampleToken ''B'' ''Y'' 2, sampleToken ''A'' ''X'' 1]
   \<and> address ([sampleToken ''B'' ''Y'' 2, sampleToken ''A'' ''X'' 1] ! 1)
       = address (sampleToken ''A'' ''X'' 1)
   \<and> address ([sampleToken ''B'' ''Y'' 2, sampleToken ''A'' ''X'' 1] ! 0)
       \<noteq> address (sampleToken ''A'' ''X'' 1)
   \<and> truthy (JStr ''https://img'')
   \<and> distinct (map address [sampleToken ''B'' ''Y'' 2, sampleToken ''A'' ''X'' 1])
   \<and> patchImage (sampleToken ''A'' ''X'' 1) (JStr ''https://img'')
        [sampleToken ''B'' ''Y'' 2, sampleToken ''A'' ''X'' 1]
       = [sampleToken ''B'' ''Y'' 2, (sampleToken ''A'' ''X'' 1)\<lparr>logo := JStr ''https://img''\<rparr>]
   \<and> address (sampleToken ''C'' ''Z'' 3)
       \<notin> address ` set [sampleToken ''B'' ''Y'' 2, sampleToken ''A'' ''X'' 1]
   \<and> patchImage (sampleToken ''C'' ''Z'' 3) (JStr ''https://img'')
        [sampleToken ''B'' ''Y'' 2, sampleToken ''A'' ''X'' 1]
       = [sampleToken ''B'' ''Y'' 2, sampleToken ''A'' ''X'' 1]
   \<and> \<not> truthy JUndefined
   \<and> patchImage (sampleToken ''A'' ''X'' 1) JUndefined
        [sampleToken ''B'' ''Y'' 2, sampleToken ''A'' ''X'' 1]
       = [sampleToken ''B'' ''Y'' 2, sampleToken ''A'' ''X'' 1]"
proof -
  let ?s = "[sampleToken ''B'' ''Y'' 2, sampleToken ''A'' ''X'' 1]"
  have h: "(1::nat) < length ?s"
    "address (?s ! 1) = address (sampleToken ''A'' ''X'' 1)"
    "address (?s ! 0) \<noteq> address (sampleToken ''A'' ''X'' 1)"
    "truthy (JStr ''https://img'')" "distinct (map address ?s)"
    "address (sampleToken ''C'' ''Z'' 3) \<notin> address ` set ?s" "\<not> truthy JUndefined"
    by (simp_all add: sampleToken_def)
  from patchImage_frame [of "sampleToken ''A'' ''X'' 1" "JStr ''https://img''" ?s] h(1,2,4,5)
  have "patchImage (sampleToken ''A'' ''X'' 1) (JStr ''https://img'') ?s
      = ?s[1 := (?s ! 1)\<lparr>logo := JStr ''https://img''\<rparr>]"
    by blast
  then have p1: "patchImage (sampleToken ''A'' ''X'' 1) (JStr ''https://img'') ?s
      = [sampleToken ''B'' ''Y'' 2, (sampleToken ''A'' ''X'' 1)\<lparr>logo := JStr ''https://img''\<rparr>]"
    by simp
  from patchImage_frame [of "sampleToken ''C'' ''Z'' 3" "JStr ''https://img''" ?s] h(6)
  have p2: "patchImage (sampleToken ''C'' ''Z'' 3) (JStr ''https://img'') ?s = ?s"
    by blast
  from patchImage_frame [of "sampleToken ''A'' ''X'' 1" JUndefined ?s] h(7)
  have p3: "patchImage (sampleToken ''A'' ''X'' 1) JUndefined ?s = ?s"
    by blast
  from h p1 p2 p3 show ?thesis
    by (simp only: simp_thms)
qed

text \<open>
  The claim C9 as it is written makes the patch a no-op when the entry has been replaced.
  After a second upsert of the id has replaced the token, the patch for the first token
  changes the store: it sets the logo of the replacement.
\<close>

theorem patchImage_replaced_counterexample:
  "sampleToken ''A'' ''X'' 1
     \<notin> set (addToken (sampleToken ''A'' ''Y'' 2) (addToken (sampleToken ''A'' ''X'' 1) []))
   \<and> patchImage (sampleToken ''A'' ''X'' 1) (JStr ''https://img'')
        (addToken (sampleToken ''A'' ''Y'' 2) (addToken (sampleToken ''A'' ''X'' 1) []))
     \<noteq> addToken (sampleToken ''A'' ''Y'' 2) (addToken (sampleToken ''A'' ''X'' 1) [])"
  by (simp add: addToken_Cons patchImage_def sampleToken_def)

lemma moralisToken_address:
  assumes "moralisToken pf now isoNow item = Inr t"
  shows "address t = jsOr (getProp item ''tokenAddress'') (getProp item ''address'')"
  using assms by (auto simp: moralisToken_def split: if_splits sum.splits)

lemma fetchFromMoralis_two:
  assumes "moralisToken pf now isoNow i1 = Inr t1" "moralisToken pf now isoNow i2 = Inr t2"
  shows "fetchFromMoralis pf now isoNow (Body (JObj r [(''result'', JArr r' [i1, i2])])) s
         = addToken t2 (addToken t1 s)"
  using assms by (simp add: fetchFromMoralis_def)

text \<open>
  C10. An item of the poll that has neither \<open>tokenAddress\<close> nor \<open>address\<close>, and
  from which the poller builds a token, gives a token whose \<open>address\<close> is
  \<open>undefined\<close>; the poller upserts it like any other, so it is at the front of the
  store. Two such items in one poll leave one entry with the address \<open>undefined\<close>,
  the second: the first is removed as its duplicate. The empty object is such an item,
  and the poller builds a token from it.
\<close>

theorem moralis_idless:
  "(getProp i1 ''tokenAddress'' = JUndefined \<and> getProp i1 ''address'' = JUndefined
    \<and> getProp i2 ''tokenAddress'' = JUndefined \<and> getProp i2 ''address'' = JUndefined
    \<and> moralisToken pf now isoNow i1 = Inr t1 \<and> moralisToken pf now isoNow i2 = Inr t2 \<longrightarrow>
      address t1 = JUndefined \<and> address t2 = JUndefined
      \<and> fetchFromMoralis pf now isoNow (Body (JObj r [(''result'', JArr r' [i1])])) s
          = addToken t1 s
      \<and> hd (addToken t1 s) = t1
      \<and> fetchFromMoralis pf now isoNow (Body (JObj r [(''result'', JArr r' [i1, i2])])) s
          = addToken t2 (addToken t1 s)
      \<and> filter (\<lambda>t. address t = JUndefined) (addToken t2 (addToken t1 s)) = [t2])
   \<and> moralisToken pfZero now isoNow (JObj r []) =
       Inr \<lparr>address = JUndefined, symbol = JStr ''UNKNOWN'', name = JStr ''Unknown'',
            logo = JUndefined, price = Fin 0, marketCap = Fin 0, bondingProgress = None,
            createdAt = JStr isoNow, fetchedAt = now\<rparr>"
proof -
  have a: "address t1 = JUndefined \<and> address t2 = JUndefined
      \<and> fetchFromMoralis pf now isoNow (Body (JObj r [(''result'', JArr r' [i1])])) s
          = addToken t1 s
      \<and> hd (addToken t1 s) = t1
      \<and> fetchFromMoralis pf now isoNow (Body (JObj r [(''result'', JArr r' [i1, i2])])) s
          = addToken t2 (addToken t1 s)
      \<and> filter (\<lambda>t. address t = JUndefined) (addToken t2 (addToken t1 s)) = [t2]"
    if h: "getProp i1 ''tokenAddress'' = JUndefined" "getProp i1 ''address'' = JUndefined"
      "getProp i2 ''tokenAddress'' = JUndefined" "getProp i2 ''address'' = JUndefined"
      "moralisToken pf now isoNow i1 = Inr t1" "moralisToken pf now isoNow i2 = Inr t2"
  proof -
    from moralisToken_address [OF h(5)] h(1,2) have a1: "address t1 = JUndefined"
      by (simp add: jsOr_def)
    from moralisToken_address [OF h(6)] h(3,4) have a2: "address t2 = JUndefined"
      by (simp add: jsOr_def)
    have one: "fetchFromMoralis pf now isoNow (Body (JObj r [(''result'', JArr r' [i1])])) s
          = addToken t1 s"
      using h(5) by (simp add: fetchFromMoralis_def)
    have hd: "hd (addToken t1 s) = t1"
      by (simp add: addToken_Cons)
    have "filter (\<lambda>t. address t = address t2) (addToken t2 (addToken t1 s)) = [t2]"
      by (rule addToken_same_id)
    with a2 have f: "filter (\<lambda>t. address t = JUndefined) (addToken t2 (addToken t1 s)) = [t2]"
      by simp
    from a1 a2 one hd fetchFromMoralis_two [OF h(5,6)] f show ?thesis
      by blast
  qed
  have b: "moralisToken pfZero now isoNow (JObj r []) =
       Inr \<lparr>address = JUndefined, symbol = JStr ''UNKNOWN'', name = JStr ''Unknown'',
            logo = JUndefined, price = Fin 0, marketCap = Fin 0, bondingProgress = None,
            createdAt = JStr isoNow, fetchedAt = now\<rparr>"
    by (simp add: moralisToken_def jsOr_def pfZero_def)
  from a b show ?thesis
    by blast
qed

theorem moralis_idless_witness:
  "getProp (JObj 1 []) ''tokenAddress'' = JUndefined \<and> getProp (JObj 1 []) ''address'' = JUndefined
   \<and> getProp (JObj 2 [(''symbol'', JStr ''S'')]) ''tokenAddress'' = JUndefined
   \<and> getProp (JObj 2 [(''symbol'', JStr ''S'')]) ''address'' = JUndefined
   \<and> fetchFromMoralis pfZero 5 ''t''
        (Body (JObj 0 [(''result'', JArr 3 [JObj 1 [], JObj 2 [(''symbol'', JStr ''S'')]])]))
        [sampleToken ''A'' ''X'' 1]
     = [\<lparr>address = JUndefined, symbol = JStr ''S'', name = JStr ''Unknown'',
            logo = JUndefined, price = Fin 0, marketCap = Fin 0, bondingProgress = None,
            createdAt = JStr ''t'', fetchedAt = 5\<rparr>, sampleToken ''A'' ''X'' 1]"
proof -
  let ?t1 = "\<lparr>address = JUndefined, symbol = JStr ''UNKNOWN'', name = JStr ''Unknown'',
            logo = JUndefined, price = Fin 0, marketCap = Fin 0, bondingProgress = None,
            createdAt = JStr ''t'', fetchedAt = 5\<rparr>"
  let ?t2 = "\<lparr>address = JUndefined, symbol = JStr ''S'', name = JStr ''Unknown'',
            logo = JUndefined, price = Fin 0, marketCap = Fin 0, bondingProgress = None,
            createdAt = JStr ''t'', fetchedAt = 5\<rparr>"
  have h: "getProp (JObj 1 []) ''tokenAddress'' = JUndefined"
    "getProp (JObj 1 []) ''address'' = JUndefined"
    "getProp (JObj 2 [(''symbol'', JStr ''S'')]) ''tokenAddress'' = JUndefined"
    "getProp (JObj 2 [(''symbol'', JStr ''S'')]) ''address'' = JUndefined"
    "moralisToken pfZero 5 ''t'' (JObj 1 []) = Inr ?t1"
    "moralisToken pfZero 5 ''t'' (JObj 2 [(''symbol'', JStr ''S'')]) = Inr ?t2"
    by (simp_all add: moralisToken_def jsOr_def pfZero_def)
  from moralis_idless [of "JObj 1 []" "JObj 2 [(''symbol'', JStr ''S'')]" pfZero 5 "''t''"
      ?t1 ?t2 0 3 "[sampleToken ''A'' ''X'' 1]"] h
  have "fetchFromMoralis pfZero 5 ''t''
        (Body (JObj 0 [(''result'', JArr 3 [JObj 1 [], JObj 2 [(''symbol'', JStr ''S'')]])]))
        [sampleToken ''A'' ''X'' 1] = addToken ?t2 (addToken ?t1 [sampleToken ''A'' ''X'' 1])"
    by blast
  also have "\<dots> = [?t2, sampleToken ''A'' ''X'' 1]"
    by (simp add: addToken_Cons sampleToken_def MAX_TOKENS_def)
  finally show ?thesis
    using h(1-4) by (simp only: simp_thms)
qed

end
